theory Spec2Isabelle
  imports Complex_Main "HOL-Library.AList"
begin

section \<open>Python values, dictionaries and errors\<close>

text \<open>
  The migration script \<^verbatim>\<open>main.py\<close> works on JSON objects and on Python dictionaries.
  A scalar JSON value is a \<open>pyval\<close>: \<^verbatim>\<open>None\<close>, a string or an integer. A Python
  \<^verbatim>\<open>dict\<close> keeps its keys in insertion order and \<^verbatim>\<open>d.update({k: v})\<close> overwrites
  the value of an existing key in place and appends a new key at the end; this is
  \<open>AList.update\<close> on an association list whose keys are distinct.
\<close>

datatype pyval = PNone | PStr string | PInt int

datatype py_error = TypeError | ValueError | KeyError | SystemExit | Fault

type_synonym ('k, 'v) pydict = "('k \<times> 'v) list"

text \<open>A JSON object or an entity: field name to value.\<close>
type_synonym entity = "(string, pyval) pydict"

text \<open>\<^verbatim>\<open>d.update({k: v})\<close>\<close>
abbreviation dict_update :: "'k \<Rightarrow> 'v \<Rightarrow> ('k, 'v) pydict \<Rightarrow> ('k, 'v) pydict" where
  "dict_update \<equiv> AList.update"

text \<open>\<^verbatim>\<open>d.get(k)\<close>: the value, or \<^verbatim>\<open>None\<close> when the key is missing.\<close>
definition dict_get :: "('k, pyval) pydict \<Rightarrow> 'k \<Rightarrow> pyval" where
  "dict_get d k = (case map_of d k of None \<Rightarrow> PNone | Some v \<Rightarrow> v)"

text \<open>\<^verbatim>\<open>d.get(k, default)\<close>\<close>
definition dict_get_default :: "('k, 'v) pydict \<Rightarrow> 'k \<Rightarrow> 'v \<Rightarrow> 'v" where
  "dict_get_default d k dflt = (case map_of d k of None \<Rightarrow> dflt | Some v \<Rightarrow> v)"

section \<open>Decimal text of integers\<close>

text \<open>\<^verbatim>\<open>str(n)\<close> of a Python integer, as an f-string field prints it.\<close>

definition digit_char :: "nat \<Rightarrow> char" where
  "digit_char d = ''0123456789'' ! d"

fun str_nat :: "nat \<Rightarrow> string" where
  "str_nat n = (if n < 10 then [digit_char n] else str_nat (n div 10) @ [digit_char (n mod 10)])"

declare str_nat.simps [simp del]

definition str_int :: "int \<Rightarrow> string" where
  "str_int i = (if i < 0 then CHR ''-'' # str_nat (nat (- i)) else str_nat (nat i))"

section \<open>Generator: page URLs\<close>

text \<open>
  \<^verbatim>\<open>Generator.generate_entity_urls\<close>. The second argument is what
  \<^verbatim>\<open>requests.get(base_url).json().get("count")\<close> returned: the integer \<open>count\<close> of
  the source's metadata, or \<^verbatim>\<open>None\<close> when the response has no such field, for which
  \<^verbatim>\<open>amount % 10\<close> raises \<^verbatim>\<open>TypeError\<close>. \<^verbatim>\<open>%\<close> and \<^verbatim>\<open>//\<close> on Python integers
  are floor division, as \<open>mod\<close> and \<open>div\<close> on \<open>int\<close> are. A count that is not an
  integer is outside the type: on a string \<^verbatim>\<open>%\<close> is text formatting.
\<close>

definition generate_entity_urls :: "string \<Rightarrow> int option \<Rightarrow> py_error + string list" where
  "generate_entity_urls base_url amount_v =
     (case amount_v of
        Some amount \<Rightarrow>
          (let pages = (if amount mod 10 = 0 then amount div 10 else amount div 10 + 1)
           in Inr (map (\<lambda>page. base_url @ ''?page='' @ str_int page) [1..pages]))
      | None \<Rightarrow> Inl TypeError)"

section \<open>Loops that may raise\<close>

text \<open>
  A \<^verbatim>\<open>for\<close> loop whose body may raise: the state is threaded through the items in
  order and the first exception ends the loop.
\<close>

fun for_loop :: "('s \<Rightarrow> 'a \<Rightarrow> py_error + 's) \<Rightarrow> 's \<Rightarrow> 'a list \<Rightarrow> py_error + 's" where
  "for_loop body s [] = Inr s"
| "for_loop body s (x # xs) =
     (case body s x of Inl e \<Rightarrow> Inl e | Inr s' \<Rightarrow> for_loop body s' xs)"

section \<open>Source ids from URLs\<close>

text \<open>\<^verbatim>\<open>s.rfind(c)\<close>: the highest index at which \<open>c\<close> occurs, or \<open>-1\<close>.\<close>

primrec rfind :: "string \<Rightarrow> char \<Rightarrow> int" where
  "rfind [] c = - 1"
| "rfind (x # xs) c =
     (let r = rfind xs c in if 0 \<le> r then r + 1 else if x = c then 0 else - 1)"

text \<open>
  \<^verbatim>\<open>int(s)\<close> on a string of ASCII characters: surrounding whitespace (space, tab,
  line feed, vertical tab, form feed, carriage return) is stripped, one sign is allowed,
  and the digits may be separated by single underscores. A literal with more digits
  than \<^verbatim>\<open>sys.get_int_max_str_digits()\<close>, 4300 unless the interpreter is configured
  otherwise, is refused. Every refusal raises \<^verbatim>\<open>ValueError\<close>. (Digits outside ASCII
  are not part of the model.)
\<close>

definition is_space :: "char \<Rightarrow> bool" where
  "is_space c = (c \<in> set [CHR '' '', CHR 0x09, CHR 0x0A, CHR 0x0B, CHR 0x0C, CHR 0x0D])"

definition int_max_str_digits :: nat where
  "int_max_str_digits = 4300"

definition is_digit :: "char \<Rightarrow> bool" where
  "is_digit c = (c \<in> set ''0123456789'')"

definition digit_val :: "char \<Rightarrow> nat" where
  "digit_val c = of_char c - 48"

definition strip :: "string \<Rightarrow> string" where
  "strip s = rev (dropWhile is_space (rev (dropWhile is_space s)))"

fun parse_digits :: "nat \<Rightarrow> string \<Rightarrow> nat option" where
  "parse_digits acc [] = Some acc"
| "parse_digits acc (c # cs) =
     (if is_digit c then parse_digits (10 * acc + digit_val c) cs
      else if c = CHR ''_'' \<and> cs \<noteq> [] \<and> is_digit (hd cs) then parse_digits acc cs
      else None)"

definition py_int :: "string \<Rightarrow> py_error + int" where
  "py_int s =
     (let t = strip s;
          neg = (t \<noteq> [] \<and> hd t = CHR ''-'');
          body = (if t \<noteq> [] \<and> (hd t = CHR ''-'' \<or> hd t = CHR ''+'') then tl t else t)
      in if body = [] \<or> \<not> is_digit (hd body) then Inl ValueError
         else (case parse_digits 0 body of
                 None \<Rightarrow> Inl ValueError
               | Some n \<Rightarrow>
                   if int_max_str_digits < length (filter is_digit body) then Inl ValueError
                   else Inr (if neg then - int n else int n)))"

text \<open>
  \<^verbatim>\<open>int(url[(url[:-1].rfind("/") + 1) : -1])\<close>. \<^verbatim>\<open>url[:-1]\<close> is \<open>butlast url\<close>, and
  for a start index \<open>a \<ge> 0\<close> the slice \<^verbatim>\<open>url[a:-1]\<close> is \<open>drop a (butlast url)\<close>.
  Slicing \<^verbatim>\<open>None\<close> or an integer raises \<^verbatim>\<open>TypeError\<close>.
\<close>

definition entity_id_of_url :: "pyval \<Rightarrow> py_error + int" where
  "entity_id_of_url url_v =
     (case url_v of
        PStr url \<Rightarrow> py_int (drop (nat (rfind (butlast url) CHR ''/'' + 1)) (butlast url))
      | _ \<Rightarrow> Inl TypeError)"

section \<open>Pages\<close>

text \<open>
  A page of the remote source is the JSON object \<^verbatim>\<open>{count: int, results: [record...]}\<close>;
  each record is a JSON object with scalar fields. \<^verbatim>\<open>page.get("results", "")\<close> is the
  list of records, or the empty string (iterated zero times) when the key is absent.
\<close>

record page =
  count :: pyval
  results :: "entity list option"

definition page_results :: "page \<Rightarrow> entity list" where
  "page_results pg = (case results pg of None \<Rightarrow> [] | Some rs \<Rightarrow> rs)"

section \<open>Planets\<close>

text \<open>One element of the list comprehension of \<^verbatim>\<open>generate_planet_info\<close>.\<close>

definition blank_sentinel :: "pyval \<Rightarrow> pyval" where
  "blank_sentinel v = (if v \<noteq> PStr ''unknown'' \<and> v \<noteq> PStr ''0'' then v else PStr [])"

text \<open>The body of the inner loop of \<^verbatim>\<open>Planets.generate_planet_info\<close>.\<close>

definition planet_step :: "(int, entity) pydict \<Rightarrow> entity \<Rightarrow> py_error + (int, entity) pydict" where
  "planet_step planet_dict planet =
     (let name = dict_get_default planet ''name'' (PStr [])
      in if name = PStr ''unknown'' then Inr planet_dict
         else (case entity_id_of_url (dict_get planet ''url'') of
                 Inl e \<Rightarrow> Inl e
               | Inr planet_id \<Rightarrow>
                   (let rotation_period = dict_get planet ''rotation_period'';
                        orbital_period = dict_get planet ''orbital_period'';
                        diameter = dict_get planet ''diameter'';
                        population = dict_get planet ''population''
                    in Inr (dict_update planet_id
                              [(''name'', name),
                               (''diameter'', blank_sentinel diameter),
                               (''rotation_period'', blank_sentinel rotation_period),
                               (''orbital_period'', blank_sentinel orbital_period),
                               (''population'', blank_sentinel population)]
                              planet_dict))))"

definition generate_planet_info :: "page list \<Rightarrow> py_error + (int, entity) pydict" where
  "generate_planet_info json_list =
     for_loop (\<lambda>planet_dict pg. for_loop planet_step planet_dict (page_results pg)) [] json_list"

section \<open>Characters\<close>



text \<open>
  \<^verbatim>\<open>Characters.upgrage_characters_photo\<close>. Each inner dictionary is updated in place and
  stored in the new outer dictionary; the model returns the new outer dictionary.
  \<^verbatim>\<open>image_dict.get(characters_id)\<close> is \<^verbatim>\<open>None\<close> for a missing key.
\<close>

definition photo_step ::
  "(int, pyval) pydict \<Rightarrow> (int, entity) pydict \<Rightarrow> int \<times> entity \<Rightarrow> (int, entity) pydict" where
  "photo_step image_dict changed_characters_dict item =
     (let characters_id = fst item; vals = snd item;
          vals' = (if dict_get image_dict characters_id \<noteq> PStr []
                   then dict_update ''image_1920'' (dict_get image_dict characters_id) vals
                   else vals)
      in dict_update characters_id vals' changed_characters_dict)"

definition upgrage_characters_photo ::
  "(int, entity) pydict \<Rightarrow> (int, pyval) pydict \<Rightarrow> (int, entity) pydict" where
  "upgrage_characters_photo characters_dict image_dict =
     foldl (photo_step image_dict) [] characters_dict"

text \<open>
  \<^verbatim>\<open>ids_planets_dict.get(planet_id, "")\<close>: the keys of the id map are integers, so a
  key that is a string or \<^verbatim>\<open>None\<close> is never found.
\<close>

definition ids_get :: "(int, int) pydict \<Rightarrow> pyval \<Rightarrow> pyval" where
  "ids_get ids k =
     (case k of
        PInt n \<Rightarrow> (case map_of ids n of None \<Rightarrow> PStr [] | Some t \<Rightarrow> PInt t)
      | _ \<Rightarrow> PStr [])"

text \<open>\<^verbatim>\<open>Characters.upgrade_characters_info\<close>.\<close>

definition info_step ::
  "(int, int) pydict \<Rightarrow> (int, entity) pydict \<Rightarrow> int \<times> entity \<Rightarrow> (int, entity) pydict" where
  "info_step ids_planets_dict new_characters_dict item =
     (let planet_id = dict_get (snd item) ''planet''
      in dict_update (fst item)
           (dict_update ''planet'' (ids_get ids_planets_dict planet_id) (snd item))
           new_characters_dict)"

definition upgrade_characters_info ::
  "(int, entity) pydict \<Rightarrow> (int, int) pydict \<Rightarrow> (int, entity) pydict" where
  "upgrade_characters_info characters_dict ids_planets_dict =
     foldl (info_step ids_planets_dict) [] characters_dict"

section \<open>Images\<close>

text \<open>
  \<^verbatim>\<open>base64.b64encode\<close> (RFC 4648, standard alphabet, padded). A byte string is a
  \<open>char list\<close>: a \<open>char\<close> is one byte.
\<close>

definition b64_char :: "nat \<Rightarrow> char" where
  "b64_char n =
     ''ABCDEFGHIJKLMNOPQRSTUVWXYZabcdefghijklmnopqrstuvwxyz0123456789+/'' ! (n mod 64)"

fun b64encode :: "string \<Rightarrow> string" where
  "b64encode [] = []"
| "b64encode [a] =
     (let n = (of_char a :: nat) * 65536
      in [b64_char (n div 262144), b64_char (n div 4096), CHR ''='', CHR ''=''])"
| "b64encode [a, b] =
     (let n = (of_char a :: nat) * 65536 + of_char b * 256
      in [b64_char (n div 262144), b64_char (n div 4096), b64_char (n div 64), CHR ''=''])"
| "b64encode (a # b # c # rest) =
     (let n = (of_char a :: nat) * 65536 + of_char b * 256 + of_char c
      in [b64_char (n div 262144), b64_char (n div 4096), b64_char (n div 64), b64_char n]
         @ b64encode rest)"

text \<open>
  \<^verbatim>\<open>CharactersImage.determine_response_type\<close>. \<open>image_open\<close> stands for
  \<^verbatim>\<open>Image.open(BytesIO(response))\<close> of the imaging library: \<open>None\<close> when it raises.
  The bare \<^verbatim>\<open>except\<close> catches every exception.
\<close>

definition determine_response_type :: "(string \<Rightarrow> 'img option) \<Rightarrow> string \<Rightarrow> string" where
  "determine_response_type image_open response =
     (case image_open response of Some img \<Rightarrow> ''image'' | None \<Rightarrow> ''html'')"

definition image_error_message :: "int \<Rightarrow> string" where
  "image_error_message character_id =
     ''Image error. The character '' @ str_int character_id @ '' will be uploaded without image.''"

text \<open>
  \<^verbatim>\<open>CharactersImage.upgrade_photo\<close>: the loop over \<^verbatim>\<open>range(len(image_info))\<close>. The
  state is the dictionary and the lines written with \<^verbatim>\<open>logging.info\<close>.
\<close>

definition upgrade_photo_step ::
  "(string \<Rightarrow> 'img option) \<Rightarrow> string list \<Rightarrow> (int, pyval) pydict \<times> string list \<Rightarrow> nat
     \<Rightarrow> (int, pyval) pydict \<times> string list" where
  "upgrade_photo_step image_open image_info st i =
     (let image_dict = fst st; log_lines = snd st;
          character_id = int i + 1;
          type = determine_response_type image_open (image_info ! i)
      in if type = ''image''
         then (dict_update character_id (PStr (b64encode (image_info ! i))) image_dict, log_lines)
         else (dict_update character_id (PStr []) image_dict,
               log_lines @ [image_error_message character_id]))"

definition upgrade_photo ::
  "(string \<Rightarrow> 'img option) \<Rightarrow> string list \<Rightarrow> (int, pyval) pydict \<times> string list" where
  "upgrade_photo image_open image_info =
     foldl (upgrade_photo_step image_open image_info) ([], []) [0..<length image_info]"

section \<open>The target store\<close>

text \<open>
  A record returned by \<^verbatim>\<open>search_read\<close> with \<^verbatim>\<open>fields = ["name"]\<close> is
  \<^verbatim>\<open>{"id": ..., "name": ...}\<close>: a pair of the target id and the name.
\<close>

type_synonym odoo_record = "int \<times> pyval"

text \<open>\<^verbatim>\<open>xs.index(x)\<close>: the first position of \<open>x\<close>; \<open>None\<close> is \<^verbatim>\<open>ValueError\<close>.\<close>

fun list_index :: "'a list \<Rightarrow> 'a \<Rightarrow> nat option" where
  "list_index [] x = None"
| "list_index (y # ys) x = (if y = x then Some 0 else map_option Suc (list_index ys x))"

text \<open>The body of the loop over \<^verbatim>\<open>entity_dict.items()\<close> in \<^verbatim>\<open>check_entity_in_odoo\<close>.\<close>

definition check_step ::
  "pyval list \<Rightarrow> int list \<Rightarrow> int list \<times> (int, int) pydict \<Rightarrow> int \<times> entity
     \<Rightarrow> int list \<times> (int, int) pydict" where
  "check_step entity_in_odoo_names entity_in_odoo_keys st item =
     (case list_index entity_in_odoo_names (dict_get (snd item) ''name'') of
        Some index \<Rightarrow>
          (fst st @ [fst item], dict_update (fst item) (entity_in_odoo_keys ! index) (snd st))
      | None \<Rightarrow> st)"

text \<open>
  \<^verbatim>\<open>Odoo.check_entity_in_odoo\<close>. \<open>search_read\<close> is the outcome of the
  \<^verbatim>\<open>execute_kw(..., "search_read", ...)\<close> call: the records, or the exception it
  raised. A \<^verbatim>\<open>Fault\<close> is caught and ends the process (\<^verbatim>\<open>sys.exit(1)\<close>); any other
  exception propagates.
\<close>

definition check_entity_in_odoo ::
  "py_error + odoo_record list \<Rightarrow> (int, entity) pydict
     \<Rightarrow> py_error + ((int, entity) pydict \<times> (int, int) pydict)" where
  "check_entity_in_odoo search_read entity_dict =
     (case search_read of
        Inl e \<Rightarrow> (if e = Fault then Inl SystemExit else Inl e)
      | Inr result \<Rightarrow>
          (let new_dict = foldl (\<lambda>d r. dict_update (fst r) (snd r) d) [] result;
               entity_in_odoo_keys = map fst new_dict;
               entity_in_odoo_names = map snd new_dict;
               st = foldl (check_step entity_in_odoo_names entity_in_odoo_keys) ([], []) entity_dict;
               del_list = fst st; ids_entity_dict = snd st
           in Inr (foldl (\<lambda>d k. AList.delete k d) entity_dict del_list, ids_entity_dict)))"

text \<open>\<^verbatim>\<open>str(v)\<close> as an f-string field prints a value.\<close>

definition pyval_str :: "pyval \<Rightarrow> string" where
  "pyval_str v = (case v of PNone \<Rightarrow> ''None'' | PStr s \<Rightarrow> s | PInt i \<Rightarrow> str_int i)"

text \<open>\<^verbatim>\<open>d[k]\<close>: raises \<^verbatim>\<open>KeyError\<close> for a missing key.\<close>

definition dict_item :: "('k, 'v) pydict \<Rightarrow> 'k \<Rightarrow> py_error + 'v" where
  "dict_item d k = (case map_of d k of None \<Rightarrow> Inl KeyError | Some v \<Rightarrow> Inr v)"

text \<open>The body of the logging loop of \<^verbatim>\<open>upload_entity_info_into_oddo\<close>.\<close>

definition upload_log_step ::
  "string \<Rightarrow> (int, int) pydict \<Rightarrow> string list \<Rightarrow> int \<times> entity \<Rightarrow> py_error + string list" where
  "upload_log_step type ids_entity_dict log_lines item =
     (case dict_item (snd item) ''name'' of
        Inl e \<Rightarrow> Inl e
      | Inr name \<Rightarrow>
          (case dict_item ids_entity_dict (fst item) of
             Inl e \<Rightarrow> Inl e
           | Inr odoo_id \<Rightarrow>
               Inr (log_lines @ [''The entity type: '' @ type @ '', name: '' @ pyval_str name
                           @ '', Odoo_id: '' @ str_int odoo_id
                           @ '', mother_id: '' @ str_int (fst item) @ '' is created''])))"

text \<open>
  The outcome of \<^verbatim>\<open>upload_entity_info_into_oddo\<close>: the returned id map, the batches
  passed to the \<^verbatim>\<open>create\<close> call of the store, and the lines logged.
\<close>

record upload_outcome =
  ids_out :: "(int, int) pydict"
  submitted :: "entity list list"
  logged :: "string list"

text \<open>
  \<^verbatim>\<open>Odoo.upload_entity_info_into_oddo\<close>. \<open>create\<close> is the
  \<^verbatim>\<open>execute_kw(..., "create", [records])\<close> call of the store: the ids it returns, or
  the exception it raises, which is not caught. \<^verbatim>\<open>dict(zip(keys, ids))\<close> stops at the
  shorter of the two sequences.
\<close>

definition upload_entity_info_into_oddo ::
  "(entity list \<Rightarrow> py_error + int list) \<Rightarrow> (int, entity) pydict \<Rightarrow> (int, int) pydict \<Rightarrow> string
     \<Rightarrow> py_error + upload_outcome" where
  "upload_entity_info_into_oddo create entity_dict ids_entity_dict type =
     (case create (map snd entity_dict) of
        Inl e \<Rightarrow> Inl e
      | Inr entity_odoo_id \<Rightarrow>
          (let zipped = foldl (\<lambda>d kv. dict_update (fst kv) (snd kv) d) []
                          (zip (map fst entity_dict) entity_odoo_id);
               ids' = foldl (\<lambda>d kv. dict_update (fst kv) (snd kv) d) ids_entity_dict zipped
           in (case for_loop (upload_log_step type ids') [] entity_dict of
                 Inl e \<Rightarrow> Inl e
               | Inr log_lines \<Rightarrow>
                   Inr \<lparr>ids_out = ids', submitted = [map snd entity_dict], logged = log_lines\<rparr>)))"

section \<open>Statements of the specification\<close>

text \<open>
  The records a normalizer keeps: every record of every page, in page order, whose
  name is not the sentinel.
\<close>

definition record_name :: "entity \<Rightarrow> pyval" where
  "record_name r = dict_get_default r ''name'' (PStr [])"

definition kept_records :: "page list \<Rightarrow> entity list" where
  "kept_records json_list =
     filter (\<lambda>r. record_name r \<noteq> PStr ''unknown'') (concat (map page_results json_list))"


text \<open>The source id of a record and the foreign id its homeworld URL carries.\<close>

definition source_id :: "entity \<Rightarrow> py_error + int" where
  "source_id r = entity_id_of_url (dict_get r ''url'')"




text \<open>
  The specification's suppression of sentinel values, and the canonical planet of a
  record.
\<close>

definition spec_blank :: "pyval \<Rightarrow> pyval" where
  "spec_blank v = (if v = PStr ''unknown'' \<or> v = PStr ''0'' then PStr [] else v)"

definition spec_planet_entry :: "entity \<Rightarrow> int \<times> entity" where
  "spec_planet_entry r =
     (projr (source_id r),
      [(''name'', record_name r),
       (''diameter'', spec_blank (dict_get r ''diameter'')),
       (''rotation_period'', spec_blank (dict_get r ''rotation_period'')),
       (''orbital_period'', spec_blank (dict_get r ''orbital_period'')),
       (''population'', spec_blank (dict_get r ''population''))])"

text \<open>The value of a decimal numeral.\<close>

definition decimal_value :: "string \<Rightarrow> nat" where
  "decimal_value ds = foldl (\<lambda>acc c. 10 * acc + digit_val c) 0 ds"

text \<open>
  What the two resolver loops store for one item of the dictionary: the entity with the
  image attached, and the entity with its \<open>planet\<close> field remapped.
\<close>

definition attach_image :: "(int, pyval) pydict \<Rightarrow> int \<times> entity \<Rightarrow> entity" where
  "attach_image image_dict item =
     (if dict_get image_dict (fst item) \<noteq> PStr []
      then dict_update ''image_1920'' (dict_get image_dict (fst item)) (snd item)
      else snd item)"

definition remap_entity :: "(int, int) pydict \<Rightarrow> int \<times> entity \<Rightarrow> entity" where
  "remap_entity ids item =
     dict_update ''planet'' (ids_get ids (dict_get (snd item) ''planet'')) (snd item)"

text \<open>
  The target id of the first record of the store that bears a given name, if there is
  one.
\<close>

definition first_id :: "odoo_record list \<Rightarrow> pyval \<Rightarrow> int option" where
  "first_id result name = map_option fst (find (\<lambda>r. snd r = name) result)"

text \<open>
  Base64 decoding (RFC 4648): four characters of the alphabet carry three bytes, and a
  final group padded with one or two \<open>=\<close> carries two bytes or one.
\<close>

definition spec_b64_index :: "char \<Rightarrow> nat option" where
  "spec_b64_index c =
     list_index ''ABCDEFGHIJKLMNOPQRSTUVWXYZabcdefghijklmnopqrstuvwxyz0123456789+/'' c"

fun spec_b64decode :: "string \<Rightarrow> string option" where
  "spec_b64decode [] = Some []"
| "spec_b64decode (a # b # c # d # rest) =
     (case (spec_b64_index a, spec_b64_index b) of
        (Some x, Some y) \<Rightarrow>
          if c = CHR ''='' then
            (if d = CHR ''='' \<and> rest = [] then Some [char_of ((x * 64 + y) div 16)] else None)
          else
            (case spec_b64_index c of
               None \<Rightarrow> None
             | Some z \<Rightarrow>
                 if d = CHR ''='' then
                   (if rest = []
                    then Some [char_of ((x * 64 + y) div 16), char_of ((y * 64 + z) div 4)]
                    else None)
                 else
                   (case spec_b64_index d of
                      None \<Rightarrow> None
                    | Some w \<Rightarrow>
                        (case spec_b64decode rest of
                           None \<Rightarrow> None
                         | Some bs \<Rightarrow>
                             Some (char_of ((x * 64 + y) div 16) # char_of ((y * 64 + z) div 4)
                                   # char_of (z * 64 + w) # bs))))
      | _ \<Rightarrow> None)"
| "spec_b64decode _ = None"

section \<open>Properties\<close>

lemma pages_is_ceiling:
  "(if amount mod 10 = 0 then amount div 10 else amount div 10 + 1) = \<lceil>real_of_int amount / 10\<rceil>"
proof -
  have "\<lceil>real_of_int amount / real_of_int 10\<rceil> = - (- amount div 10)"
    by (rule ceiling_divide_eq_div)
  then have c: "\<lceil>real_of_int amount / 10\<rceil> = - (- amount div 10)" by simp
  show ?thesis unfolding c by (simp add: zdiv_zminus1_eq_if)
qed

lemma length_upto_from_1: "length [1..m] = nat m"
  by simp

text \<open>
  C5. For a nonnegative count, \<open>generate_entity_urls\<close> returns exactly
  \<open>ceil(count/10)\<close> URLs \<open>base_url?page=1\<close>, ..., \<open>base_url?page=pages\<close> in ascending
  order; a count of 0 gives the empty sequence (no error), a count of 10 gives one URL
  and a count of 11 gives two.
\<close>

theorem generate_entity_urls_ceiling:
  assumes "0 \<le> amount"
  shows "generate_entity_urls base_url (Some amount) =
           Inr (map (\<lambda>page. base_url @ ''?page='' @ str_int page) [1..\<lceil>real_of_int amount / 10\<rceil>])
         \<and> (\<exists>urls. generate_entity_urls base_url (Some amount) = Inr urls
               \<and> int (length urls) = \<lceil>real_of_int amount / 10\<rceil>)
         \<and> generate_entity_urls base_url (Some 0) = Inr []
         \<and> generate_entity_urls base_url (Some 10) = Inr [base_url @ ''?page=1'']
         \<and> generate_entity_urls base_url (Some 11) = Inr [base_url @ ''?page=1'', base_url @ ''?page=2'']"
proof -
  let ?c = "\<lceil>real_of_int amount / 10\<rceil>"
  have g: "generate_entity_urls base_url (Some amount) =
           Inr (map (\<lambda>page. base_url @ ''?page='' @ str_int page) [1..?c])"
    unfolding generate_entity_urls_def
    by (simp only: option.case Let_def pages_is_ceiling)
  have nonneg: "0 \<le> ?c" using assms by (simp add: ceiling_le_iff)
  have len: "int (length (map (\<lambda>page. base_url @ ''?page='' @ str_int page) [1..?c])) = ?c"
    using nonneg by simp
  have u1: "[1..1::int] = [1]" by (simp add: upto.simps)
  have u2: "[1..2::int] = [1, 2]" by (simp add: upto.simps)
  have s1: "str_int 1 = ''1''" by (simp add: str_int_def str_nat.simps digit_char_def)
  have s2: "str_int 2 = ''2''" by (simp add: str_int_def str_nat.simps digit_char_def)
  have z: "generate_entity_urls base_url (Some 0) = Inr []"
    by (simp add: generate_entity_urls_def)
  have t: "generate_entity_urls base_url (Some 10) = Inr [base_url @ ''?page=1'']"
    by (simp add: generate_entity_urls_def u1 s1)
  have e: "generate_entity_urls base_url (Some 11) = Inr [base_url @ ''?page=1'', base_url @ ''?page=2'']"
    by (simp add: generate_entity_urls_def u2 s1 s2)
  from g len z t e show ?thesis by blast
qed

theorem generate_entity_urls_ceiling_witness:
  "(0::int) \<le> 25 \<and> generate_entity_urls ''u'' (Some 25) = Inr [''u?page=1'', ''u?page=2'', ''u?page=3'']"
proof -
  have h: "(0::int) \<le> 25" by simp
  have c: "\<lceil>real_of_int 25 / 10\<rceil> = 3" by (simp add: ceiling_eq_iff)
  have u3: "[1..3::int] = [1, 2, 3]" by (simp add: upto.simps)
  have s: "str_int 1 = ''1''" "str_int 2 = ''2''" "str_int 3 = ''3''"
    by (simp_all add: str_int_def str_nat.simps digit_char_def)
  from generate_entity_urls_ceiling [OF h, of "''u''"]
  have "generate_entity_urls ''u'' (Some 25) =
          Inr (map (\<lambda>page. ''u'' @ ''?page='' @ str_int page) [1..\<lceil>real_of_int 25 / 10\<rceil>])"
    by blast
  then show ?thesis unfolding c u3 by (simp add: s)
qed

subsection \<open>Dictionaries built by a loop of updates\<close>

lemma dict_update_fresh: "k \<notin> fst ` set al \<Longrightarrow> dict_update k v al = al @ [(k, v)]"
  by (induction al) auto

lemma set_dict_update_subset: "set (dict_update k v al) \<subseteq> insert (k, v) (set al)"
  by (induction al) auto

lemma dict_get_update_same: "dict_get (dict_update k v e) k = v"
  by (simp add: dict_get_def update_conv')

text \<open>
  A loop that stores one value per item of a dictionary into a new dictionary keeps the
  keys and their order, because the keys of the dictionary iterated are distinct.
\<close>

lemma foldl_dict_update_distinct:
  "distinct (map fst xs) \<Longrightarrow> fst ` set acc \<inter> fst ` set xs = {} \<Longrightarrow>
   foldl (\<lambda>d item. dict_update (fst item) (g item) d) acc xs = acc @ map (\<lambda>item. (fst item, g item)) xs"
proof (induction xs arbitrary: acc)
  case Nil
  then show ?case by simp
next
  case (Cons x xs)
  have fresh: "fst x \<notin> fst ` set acc" using Cons.prems(2) by auto
  have d: "distinct (map fst xs)" using Cons.prems(1) by simp
  have disj: "fst ` set (acc @ [(fst x, g x)]) \<inter> fst ` set xs = {}"
    using Cons.prems by auto
  show ?case
    using Cons.IH [OF d disj] by (simp add: dict_update_fresh [OF fresh])
qed

lemma foldl_dict_update_invariant:
  assumes "distinct (map fst acc)" "\<forall>p\<in>set acc. P p" "\<forall>x\<in>set xs. P (fst x, g x)"
  shows "distinct (map fst (foldl (\<lambda>d item. dict_update (fst item) (g item) d) acc xs))
       \<and> (\<forall>p\<in>set (foldl (\<lambda>d item. dict_update (fst item) (g item) d) acc xs). P p)"
  using assms
proof (induction xs arbitrary: acc)
  case Nil
  then show ?case by simp
next
  case (Cons x xs)
  have 1: "distinct (map fst (dict_update (fst x) (g x) acc))"
    using Cons.prems(1) by (rule distinct_update)
  have 2: "\<forall>p\<in>set (dict_update (fst x) (g x) acc). P p"
    using Cons.prems(2,3) set_dict_update_subset [of "fst x" "g x" acc] by auto
  have 3: "\<forall>y\<in>set xs. P (fst y, g y)" using Cons.prems(3) by simp
  show ?case using Cons.IH [OF 1 2 3] by simp
qed

lemma foldl_dict_update_idem:
  assumes idem: "\<And>k v. g (k, g (k, v)) = g (k, v)"
  shows "foldl (\<lambda>d item. dict_update (fst item) (g item) d) []
           (foldl (\<lambda>d item. dict_update (fst item) (g item) d) [] xs)
         = foldl (\<lambda>d item. dict_update (fst item) (g item) d) [] xs"
proof -
  let ?F = "foldl (\<lambda>d item. dict_update (fst item) (g item) d) []"
  have inv: "distinct (map fst (?F xs)) \<and> (\<forall>p\<in>set (?F xs). g p = snd p)"
  proof (rule foldl_dict_update_invariant)
    show "\<forall>x\<in>set xs. g (fst x, g x) = snd (fst x, g x)"
    proof
      fix x assume "x \<in> set xs"
      have "g (fst x, g (fst x, snd x)) = g (fst x, snd x)" by (rule idem)
      then show "g (fst x, g x) = snd (fst x, g x)" by simp
    qed
  qed simp_all
  then have d: "distinct (map fst (?F xs))" and fixed: "\<forall>p\<in>set (?F xs). g p = snd p" by blast+
  have "?F (?F xs) = [] @ map (\<lambda>item. (fst item, g item)) (?F xs)"
    by (rule foldl_dict_update_distinct [OF d]) simp
  also have "\<dots> = map (\<lambda>item. item) (?F xs)"
    using fixed by (simp add: map_idI)
  finally show ?thesis by simp
qed

subsection \<open>Merging images\<close>

lemma photo_step_alt:
  "photo_step image_dict = (\<lambda>d item. dict_update (fst item) (attach_image image_dict item) d)"
  by (simp add: photo_step_def attach_image_def fun_eq_iff Let_def)

lemma attach_image_idem:
  "attach_image image_dict (k, attach_image image_dict (k, v)) = attach_image image_dict (k, v)"
  by (simp add: attach_image_def)

lemma upgrage_characters_photo_map:
  assumes "distinct (map fst characters_dict)"
  shows "upgrage_characters_photo characters_dict image_dict =
           map (\<lambda>item. (fst item, attach_image image_dict item)) characters_dict"
proof -
  have "foldl (\<lambda>d item. dict_update (fst item) (attach_image image_dict item) d) [] characters_dict
          = [] @ map (\<lambda>item. (fst item, attach_image image_dict item)) characters_dict"
    by (rule foldl_dict_update_distinct [OF assms]) simp
  then show ?thesis by (simp add: upgrage_characters_photo_def photo_step_alt)
qed

lemma upgrage_characters_photo_idem:
  "upgrage_characters_photo (upgrage_characters_photo d image_dict) image_dict
     = upgrage_characters_photo d image_dict"
  unfolding upgrage_characters_photo_def photo_step_alt
  by (rule foldl_dict_update_idem) (rule attach_image_idem)

text \<open>
  C1. The specification says that an entity whose source id has no entry in the image map is
  returned unmodified, with no \<open>image_1920\<close> field. The code compares
  \<^verbatim>\<open>image_dict.get(characters_id)\<close> with the empty string only: for a missing entry
  the value is \<^verbatim>\<open>None\<close>, which differs from the empty string, so the entity receives
  an \<open>image_1920\<close> field holding \<^verbatim>\<open>None\<close>. Evaluated here on one character and the
  empty image map.
\<close>

theorem upgrage_characters_photo_missing_entry:
  "upgrage_characters_photo [(1, [(''name'', PStr ''Luke''), (''planet'', PInt 1)])] []
     = [(1, [(''name'', PStr ''Luke''), (''planet'', PInt 1), (''image_1920'', PNone)])]"
  by (simp add: upgrage_characters_photo_def photo_step_def dict_get_def)

subsection \<open>Remapping the foreign key\<close>

lemma info_step_alt:
  "info_step ids = (\<lambda>d item. dict_update (fst item) (remap_entity ids item) d)"
  by (simp add: info_step_def remap_entity_def fun_eq_iff Let_def)

lemma upgrade_characters_info_map:
  assumes "distinct (map fst characters_dict)"
  shows "upgrade_characters_info characters_dict ids =
           map (\<lambda>item. (fst item, remap_entity ids item)) characters_dict"
proof -
  have "foldl (\<lambda>d item. dict_update (fst item) (remap_entity ids item) d) [] characters_dict
          = [] @ map (\<lambda>item. (fst item, remap_entity ids item)) characters_dict"
    by (rule foldl_dict_update_distinct [OF assms]) simp
  then show ?thesis by (simp add: upgrade_characters_info_def info_step_alt)
qed

lemma remap_entity_twice:
  "remap_entity ids (k, remap_entity ids (k, e)) =
     dict_update ''planet'' (ids_get ids (ids_get ids (dict_get e ''planet''))) e"
  by (simp add: remap_entity_def dict_get_update_same)

lemma remap_entity_twice_eq:
  "remap_entity ids (k, remap_entity ids (k, e)) = remap_entity ids (k, e)
     \<longleftrightarrow> ids_get ids (ids_get ids (dict_get e ''planet'')) = ids_get ids (dict_get e ''planet'')"
proof
  assume "remap_entity ids (k, remap_entity ids (k, e)) = remap_entity ids (k, e)"
  then have "dict_update ''planet'' (ids_get ids (ids_get ids (dict_get e ''planet''))) e
             = dict_update ''planet'' (ids_get ids (dict_get e ''planet'')) e"
    by (simp add: remap_entity_twice) (simp add: remap_entity_def)
  then show "ids_get ids (ids_get ids (dict_get e ''planet'')) = ids_get ids (dict_get e ''planet'')"
    by (rule update_eqD)
next
  assume "ids_get ids (ids_get ids (dict_get e ''planet'')) = ids_get ids (dict_get e ''planet'')"
  then show "remap_entity ids (k, remap_entity ids (k, e)) = remap_entity ids (k, e)"
    by (simp add: remap_entity_twice) (simp add: remap_entity_def)
qed

lemma upgrade_characters_info_twice:
  assumes d: "distinct (map fst characters_dict)"
  shows "upgrade_characters_info (upgrade_characters_info characters_dict ids) ids
           = upgrade_characters_info characters_dict ids
         \<longleftrightarrow> (\<forall>item\<in>set characters_dict.
               ids_get ids (ids_get ids (dict_get (snd item) ''planet''))
                 = ids_get ids (dict_get (snd item) ''planet''))"
proof -
  let ?once = "map (\<lambda>item. (fst item, remap_entity ids item)) characters_dict"
  have once: "upgrade_characters_info characters_dict ids = ?once"
    by (rule upgrade_characters_info_map [OF d])
  have d': "distinct (map fst ?once)" using d by (simp add: comp_def)
  have twice: "upgrade_characters_info ?once ids =
                 map (\<lambda>item. (fst item, remap_entity ids (fst item, remap_entity ids item))) characters_dict"
    by (simp add: upgrade_characters_info_map [OF d'] comp_def)
  have "upgrade_characters_info ?once ids = ?once \<longleftrightarrow>
          (\<forall>item\<in>set characters_dict.
             remap_entity ids (fst item, remap_entity ids (fst item, snd item)) = remap_entity ids (fst item, snd item))"
    unfolding twice by (auto simp: map_eq_conv)
  then show ?thesis unfolding once by (simp only: remap_entity_twice_eq)
qed



text \<open>
  C3. \<open>upgrage_characters_photo\<close> is idempotent for every entity dictionary
  and image map. \<open>upgrade_characters_info\<close> is not idempotent in general: the second
  application looks the target id up as if it were a source id. Applying it twice
  gives the result of applying it once exactly when, for every entity, the id map sends
  the remapped planet value to itself.
\<close>

theorem resolver_idempotence:
  assumes "distinct (map fst characters_dict)"
  shows "upgrage_characters_photo (upgrage_characters_photo characters_dict image_dict) image_dict
           = upgrage_characters_photo characters_dict image_dict
         \<and> (upgrade_characters_info (upgrade_characters_info characters_dict ids_planets_dict)
               ids_planets_dict
             = upgrade_characters_info characters_dict ids_planets_dict
            \<longleftrightarrow> (\<forall>item\<in>set characters_dict.
                  ids_get ids_planets_dict (ids_get ids_planets_dict (dict_get (snd item) ''planet''))
                    = ids_get ids_planets_dict (dict_get (snd item) ''planet'')))"
  using upgrage_characters_photo_idem upgrade_characters_info_twice [OF assms] by blast

theorem resolver_idempotence_witness:
  "distinct (map fst [(1::int, [(''name'', PStr ''Luke''), (''planet'', PInt 7)])])
   \<and> upgrade_characters_info
        (upgrade_characters_info [(1, [(''name'', PStr ''Luke''), (''planet'', PInt 7)])] [(7, 7)])
        [(7, 7)]
     = upgrade_characters_info [(1, [(''name'', PStr ''Luke''), (''planet'', PInt 7)])] [(7, 7)]
   \<and> upgrage_characters_photo
        (upgrage_characters_photo [(1, [(''name'', PStr ''Luke''), (''planet'', PInt 7)])]
           [(1, PStr ''QUJD'')])
        [(1, PStr ''QUJD'')]
     = upgrage_characters_photo [(1, [(''name'', PStr ''Luke''), (''planet'', PInt 7)])]
         [(1, PStr ''QUJD'')]"
proof -
  have h: "distinct (map fst [(1::int, [(''name'', PStr ''Luke''), (''planet'', PInt 7)])])"
    by simp
  from resolver_idempotence [OF h, of "[(1, PStr ''QUJD'')]" "[(7, 7)]"]
  show ?thesis by (simp add: dict_get_def ids_get_def)
qed

text \<open>
  Remapping is not idempotent: with \<open>planet = 5\<close> and the id map \<open>{5: 42}\<close>, one
  application gives \<open>planet = 42\<close> and a second one gives the empty string.
\<close>

theorem upgrade_characters_info_not_idempotent:
  "upgrade_characters_info
     (upgrade_characters_info [(1, [(''name'', PStr ''Luke''), (''planet'', PInt 5)])] [(5, 42)])
     [(5, 42)]
   \<noteq> upgrade_characters_info [(1, [(''name'', PStr ''Luke''), (''planet'', PInt 5)])] [(5, 42)]"
  by (simp add: upgrade_characters_info_def info_step_def dict_get_def ids_get_def)

subsection \<open>Classifying and encoding images\<close>

lemma determine_response_type_image:
  "determine_response_type image_open response = ''image'' \<longleftrightarrow> image_open response \<noteq> None"
  by (simp add: determine_response_type_def split: option.splits)

lemma determine_response_type_cases:
  "determine_response_type image_open response = ''image''
   \<or> determine_response_type image_open response = ''html''"
  by (simp add: determine_response_type_def split: option.splits)

lemma upgrade_photo_prefix:
  "m \<le> length image_info \<Longrightarrow>
   foldl (upgrade_photo_step image_open image_info) ([], []) [0..<m] =
     (map (\<lambda>i. (int i + 1,
               PStr (if image_open (image_info ! i) = None then [] else b64encode (image_info ! i))))
          [0..<m],
      map (\<lambda>i. image_error_message (int i + 1))
          (filter (\<lambda>i. image_open (image_info ! i) = None) [0..<m]))"
proof (induction m)
  case 0
  then show ?case by simp
next
  case (Suc m)
  let ?d = "map (\<lambda>i. (int i + 1,
               PStr (if image_open (image_info ! i) = None then [] else b64encode (image_info ! i))))
          [0..<m]"
  have fresh: "int m + 1 \<notin> fst ` set ?d" by auto
  have IH: "foldl (upgrade_photo_step image_open image_info) ([], []) [0..<m] =
     (?d, map (\<lambda>i. image_error_message (int i + 1))
          (filter (\<lambda>i. image_open (image_info ! i) = None) [0..<m]))"
    using Suc by simp
  have "foldl (upgrade_photo_step image_open image_info) ([], []) [0..<Suc m] =
          upgrade_photo_step image_open image_info
            (foldl (upgrade_photo_step image_open image_info) ([], []) [0..<m]) m"
    by simp
  also have "\<dots> = upgrade_photo_step image_open image_info
            (?d, map (\<lambda>i. image_error_message (int i + 1))
                  (filter (\<lambda>i. image_open (image_info ! i) = None) [0..<m])) m"
    by (simp only: IH)
  also have "\<dots> = (map (\<lambda>i. (int i + 1,
               PStr (if image_open (image_info ! i) = None then [] else b64encode (image_info ! i))))
          [0..<Suc m],
      map (\<lambda>i. image_error_message (int i + 1))
          (filter (\<lambda>i. image_open (image_info ! i) = None) [0..<Suc m]))"
    by (simp add: upgrade_photo_step_def Let_def determine_response_type_image
        dict_update_fresh [OF fresh])
  finally show ?case .
qed

lemma length_b64encode: "length (b64encode bs) = 4 * ((length bs + 2) div 3)"
proof (induction bs rule: b64encode.induct)
  case (4 a b c rest)
  have "(length (a # b # c # rest) + 2) div 3 = Suc ((length rest + 2) div 3)" by simp
  then show ?case using 4 by (simp add: Let_def)
qed (simp_all add: Let_def)

lemma b64encode_nonempty: "bs \<noteq> [] \<Longrightarrow> b64encode bs \<noteq> []"
  using length_b64encode [of bs] by (cases bs) auto

lemma ids_upto: "map (\<lambda>i. int i + 1) [0..<n] = [1..int n]"
proof (induction n)
  case 0
  then show ?case by simp
next
  case (Suc n)
  have "[1..int (Suc n)] = [1..int n] @ [int n + 1]"
    using upto_rec2 [of 1 "int (Suc n)"] by (simp add: add.commute)
  then show ?case using Suc by simp
qed

lemma upgrade_photo_eq:
  "upgrade_photo image_open image_info =
     (map (\<lambda>i. (int i + 1,
               PStr (if image_open (image_info ! i) = None then [] else b64encode (image_info ! i))))
          [0..<length image_info],
      map (\<lambda>i. image_error_message (int i + 1))
          (filter (\<lambda>i. image_open (image_info ! i) = None) [0..<length image_info]))"
  unfolding upgrade_photo_def by (rule upgrade_photo_prefix) simp

lemma map_nth_fun: "map (\<lambda>i. f (xs ! i)) [0..<length xs] = map f xs"
proof -
  have "map (\<lambda>i. f (xs ! i)) [0..<length xs] = map f (map (\<lambda>i. xs ! i) [0..<length xs])"
    by (simp add: comp_def)
  then show ?thesis by (simp add: map_nth)
qed

subsubsection \<open>Base64 text and decimal numerals\<close>

lemma list_index_nth:
  "distinct xs \<Longrightarrow> k < length xs \<Longrightarrow> list_index xs (xs ! k) = Some k"
proof (induction xs arbitrary: k)
  case Nil
  then show ?case by simp
next
  case (Cons x xs)
  show ?case
  proof (cases k)
    case 0
    then show ?thesis by simp
  next
    case (Suc j)
    then have j: "j < length xs" using Cons.prems by simp
    have "xs ! j \<noteq> x" using Cons.prems j by auto
    then show ?thesis using Cons.IH [of j] Cons.prems j Suc by auto
  qed
qed

lemma b64_alphabet_distinct:
  "distinct ''ABCDEFGHIJKLMNOPQRSTUVWXYZabcdefghijklmnopqrstuvwxyz0123456789+/''"
  by simp

lemma b64_index_char: "spec_b64_index (b64_char n) = Some (n mod 64)"
  unfolding spec_b64_index_def b64_char_def
  by (rule list_index_nth [OF b64_alphabet_distinct]) simp

lemma b64_char_not_pad: "b64_char n \<noteq> CHR ''=''"
proof -
  have "b64_char n \<in> set ''ABCDEFGHIJKLMNOPQRSTUVWXYZabcdefghijklmnopqrstuvwxyz0123456789+/''"
    unfolding b64_char_def by (rule nth_mem) simp
  then show ?thesis by auto
qed

lemma char_of_cong_256: "m mod 256 = k mod 256 \<Longrightarrow> char_of (m::nat) = char_of k"
  by (metis char_of_mod_256)

lemma sextet_join: "((m div 64) mod 64) * 64 + m mod 64 = (m::nat) mod 4096"
  using mod_mult2_eq [of m 64 64] by simp

lemma sextets_byte0: "((m::nat) mod 4096) div 16 mod 256 = (m div 16) mod 256"
proof -
  have "(m mod 4096) div 16 = (m div 16) mod 256"
    using div_mod_decomp [of m 4096] mod_mult2_eq [of m 16 256] by simp
  then show ?thesis by simp
qed

lemma sextets_byte1: "((m::nat) mod 4096) div 4 mod 256 = (m div 4) mod 256"
proof -
  have "(m mod 4096) div 4 = (m div 4) mod 1024"
    using div_mod_decomp [of m 4096] mod_mult2_eq [of m 4 1024] by simp
  moreover have "(m div 4) mod 1024 mod 256 = (m div 4) mod 256"
    by (simp add: mod_mod_cancel)
  ultimately show ?thesis by simp
qed

lemma sextets_byte2: "((m::nat) mod 4096) mod 256 = m mod 256"
  by (simp add: mod_mod_cancel)

lemma bytes_of_sextets:
  fixes A B C :: nat
  assumes "B < 256" "C < 256"
  defines "n \<equiv> A * 65536 + B * 256 + C"
  shows "char_of ((((n div 262144) mod 64) * 64 + (n div 4096) mod 64) div 16) = char_of A"
    and "char_of ((((n div 4096) mod 64) * 64 + (n div 64) mod 64) div 4) = char_of B"
    and "char_of (((n div 64) mod 64) * 64 + n mod 64) = char_of C"
proof -
  have d0: "n div 262144 = (n div 4096) div 64" by (simp add: div_mult2_eq)
  have d1: "n div 4096 = (n div 64) div 64" by (simp add: div_mult2_eq)
  have a: "(n div 4096) div 16 = A" using assms(1,2) by (simp add: n_def div_mult2_eq)
  have b: "(n div 64) div 4 = A * 256 + B" using assms(2) by (simp add: n_def div_mult2_eq)
  have "n = (A * 256 + B) * 256 + C" by (simp add: n_def)
  then have "n mod 256 = C mod 256" by (simp only: mod_mult_self3)
  then have c: "n mod 256 = C" using assms(2) by simp
  show "char_of ((((n div 262144) mod 64) * 64 + (n div 4096) mod 64) div 16) = char_of A"
    unfolding d0 sextet_join
    by (rule char_of_cong_256) (simp only: sextets_byte0 a)
  show "char_of ((((n div 4096) mod 64) * 64 + (n div 64) mod 64) div 4) = char_of B"
    unfolding d1 sextet_join
    by (rule char_of_cong_256) (simp add: sextets_byte1 b)
  show "char_of (((n div 64) mod 64) * 64 + n mod 64) = char_of C"
    unfolding sextet_join
    using assms(2) by (intro char_of_cong_256) (simp add: sextets_byte2 c)
qed

lemma spec_b64decode_b64encode: "spec_b64decode (b64encode bs) = Some bs"
proof (induction bs rule: b64encode.induct)
  case 1
  then show ?case by simp
next
  case (2 a)
  show ?case
    using bytes_of_sextets(1) [of 0 0 "of_char a"]
    by (simp add: Let_def b64_index_char b64_char_not_pad)
next
  case (3 a b)
  show ?case
    using bytes_of_sextets(1,2) [of "of_char b" 0 "of_char a"]
    by (simp add: Let_def b64_index_char b64_char_not_pad)
next
  case (4 a b c rest)
  show ?case
    using bytes_of_sextets [of "of_char b" "of_char c" "of_char a"] 4
    by (simp add: Let_def b64_index_char b64_char_not_pad)
qed

lemma digit_char_props:
  assumes "d < 10"
  shows "is_digit (digit_char d)" and "digit_val (digit_char d) = d"
proof -
  from assms have "d \<in> {0, 1, 2, 3, 4, 5, 6, 7, 8, 9}" by auto
  then show "is_digit (digit_char d)" and "digit_val (digit_char d) = d"
    by (auto simp: digit_char_def is_digit_def digit_val_def)
qed

lemma decimal_value_snoc: "decimal_value (ds @ [c]) = 10 * decimal_value ds + digit_val c"
  by (simp add: decimal_value_def)

lemma str_nat_decimal:
  "str_nat n \<noteq> [] \<and> list_all is_digit (str_nat n) \<and> decimal_value (str_nat n) = n"
proof (induction n rule: str_nat.induct)
  case (1 n)
  show ?case
  proof (cases "n < 10")
    case True
    then show ?thesis
      using digit_char_props [OF True]
      by (subst (1 2 3) str_nat.simps) (simp add: decimal_value_def)
  next
    case False
    have m: "n mod 10 < 10" by simp
    from 1 False have IH: "list_all is_digit (str_nat (n div 10))"
      "decimal_value (str_nat (n div 10)) = n div 10" by simp_all
    show ?thesis
      using False IH digit_char_props [OF m]
      by (subst (1 2 3) str_nat.simps) (simp add: decimal_value_snoc)
  qed
qed

lemma str_int_index:
  "str_int (int j + 1) = str_nat (Suc j)"
proof -
  have "nat (int j + 1) = Suc j" by simp
  then show ?thesis by (simp add: str_int_def)
qed

lemma str_int_index_inj: "str_int (int j + 1) = str_int (int i + 1) \<Longrightarrow> j = i"
proof -
  assume "str_int (int j + 1) = str_int (int i + 1)"
  then have "decimal_value (str_nat (Suc j)) = decimal_value (str_nat (Suc i))"
    by (simp add: str_int_index)
  then show "j = i" by (simp add: str_nat_decimal)
qed

lemma image_error_message_inj:
  "image_error_message (int j + 1) = image_error_message (int i + 1) \<Longrightarrow> j = i"
  unfolding image_error_message_def by (rule str_int_index_inj) simp

lemma count_list_map_inj:
  "(\<And>a. f a = f x \<Longrightarrow> a = x) \<Longrightarrow> count_list (map f xs) (f x) = count_list xs x"
  by (induction xs) auto

lemma count_list_filter_upt:
  "count_list (filter P [0..<n]) i = (if i < n \<and> P i then 1 else 0)"
  by (induction n) auto

text \<open>
  C7. \<open>upgrade_photo\<close> maps the payload at index \<open>i\<close> (0-based) to the key \<open>i + 1\<close>.
  A payload the imaging library opens is mapped to its base64 text: decoding the text
  gives the bytes of the payload back, its length is four characters for every three
  bytes begun, and it is non-empty for a non-empty payload. A payload the library rejects
  is mapped to the empty string, and the lines logged are the messages
  \<open>Image error. The character n will be uploaded without image.\<close> of the rejected
  payloads in order, where \<open>n\<close> is the decimal numeral of \<open>i + 1\<close>: the message of
  index \<open>i\<close> is logged once when its payload is rejected and never otherwise. The
  function has no failing branch.
\<close>

theorem upgrade_photo_classifies:
  assumes "i < length image_info"
  shows "map_of (fst (upgrade_photo image_open image_info)) (int i + 1) =
           Some (PStr (if image_open (image_info ! i) = None then []
                       else b64encode (image_info ! i)))
         \<and> spec_b64decode (b64encode (image_info ! i)) = Some (image_info ! i)
         \<and> length (b64encode (image_info ! i)) = 4 * ((length (image_info ! i) + 2) div 3)
         \<and> (image_info ! i \<noteq> [] \<longrightarrow> b64encode (image_info ! i) \<noteq> [])
         \<and> snd (upgrade_photo image_open image_info) =
             map (\<lambda>j. ''Image error. The character '' @ str_int (int j + 1)
                       @ '' will be uploaded without image.'')
                 (filter (\<lambda>j. image_open (image_info ! j) = None) [0..<length image_info])
         \<and> list_all is_digit (str_int (int i + 1))
         \<and> decimal_value (str_int (int i + 1)) = i + 1
         \<and> count_list (snd (upgrade_photo image_open image_info))
               (''Image error. The character '' @ str_int (int i + 1)
                  @ '' will be uploaded without image.'')
             = (if image_open (image_info ! i) = None then 1 else 0)"
proof -
  let ?v = "\<lambda>j. PStr (if image_open (image_info ! j) = None then [] else b64encode (image_info ! j))"
  let ?d = "map (\<lambda>j. (int j + 1, ?v j)) [0..<length image_info]"
  let ?failed = "filter (\<lambda>j. image_open (image_info ! j) = None) [0..<length image_info]"
  have keys: "map fst ?d = map (\<lambda>j. int j + 1) [0..<length image_info]"
    by (simp add: comp_def)
  have "inj_on (\<lambda>j. int j + 1) (set [0..<length image_info])"
    by (rule inj_onI) simp
  then have dist: "distinct (map fst ?d)"
    unfolding keys by (simp add: distinct_map)
  have mem: "(int i + 1, ?v i) \<in> set ?d" using assms by auto
  have look: "map_of ?d (int i + 1) = Some (?v i)"
    using map_of_eq_Some_iff [OF dist] mem by blast
  have 1: "map_of (fst (upgrade_photo image_open image_info)) (int i + 1) = Some (?v i)"
    using look by (simp add: upgrade_photo_eq)
  have 2: "spec_b64decode (b64encode (image_info ! i)) = Some (image_info ! i)"
    by (rule spec_b64decode_b64encode)
  have 3: "length (b64encode (image_info ! i)) = 4 * ((length (image_info ! i) + 2) div 3)"
    by (rule length_b64encode)
  have 4: "image_info ! i \<noteq> [] \<longrightarrow> b64encode (image_info ! i) \<noteq> []"
    by (simp add: b64encode_nonempty)
  have logged: "snd (upgrade_photo image_open image_info) =
                  map (\<lambda>j. image_error_message (int j + 1)) ?failed"
    by (simp add: upgrade_photo_eq)
  have 5: "snd (upgrade_photo image_open image_info) =
             map (\<lambda>j. ''Image error. The character '' @ str_int (int j + 1)
                       @ '' will be uploaded without image.'') ?failed"
    unfolding logged by (simp add: image_error_message_def)
  have 6: "list_all is_digit (str_int (int i + 1))"
    by (simp add: str_int_index str_nat_decimal)
  have 7: "decimal_value (str_int (int i + 1)) = i + 1"
    by (simp add: str_int_index str_nat_decimal)
  have "count_list (map (\<lambda>j. image_error_message (int j + 1)) ?failed)
          (image_error_message (int i + 1)) = count_list ?failed i"
    by (rule count_list_map_inj) (rule image_error_message_inj)
  also have "\<dots> = (if image_open (image_info ! i) = None then 1 else 0)"
    using assms by (simp add: count_list_filter_upt)
  finally have 8: "count_list (snd (upgrade_photo image_open image_info))
               (''Image error. The character '' @ str_int (int i + 1)
                  @ '' will be uploaded without image.'')
             = (if image_open (image_info ! i) = None then 1 else 0)"
    unfolding logged by (simp add: image_error_message_def)
  from 1 2 3 4 5 6 7 8 show ?thesis by blast
qed

theorem upgrade_photo_classifies_witness:
  "(0::nat) < length [''ABC'', ''<html>'']
   \<and> upgrade_photo (\<lambda>p. if p = ''ABC'' then Some () else None) [''ABC'', ''<html>'']
       = ([(1, PStr ''QUJD''), (2, PStr [])],
          [''Image error. The character 2 will be uploaded without image.''])
   \<and> spec_b64decode ''QUJD'' = Some ''ABC''"
proof -
  have h: "(0::nat) < length [''ABC'', ''<html>'']" by simp
  have u: "[0..<2] = [0, Suc 0]" by (simp add: upt_rec)
  have m: "image_error_message 2 = ''Image error. The character 2 will be uploaded without image.''"
    by (simp add: image_error_message_def str_int_def str_nat.simps digit_char_def)
  have e: "upgrade_photo (\<lambda>p. if p = ''ABC'' then Some () else None) [''ABC'', ''<html>'']
       = ([(1, PStr ''QUJD''), (2, PStr [])],
          [''Image error. The character 2 will be uploaded without image.''])"
    by (simp add: upgrade_photo_def u upgrade_photo_step_def determine_response_type_def
        b64_char_def m)
  have b: "b64encode ''ABC'' = ''QUJD''" by (simp add: b64_char_def)
  from upgrade_photo_classifies [OF h, of "\<lambda>p. if p = ''ABC'' then Some () else None"]
  have r: "spec_b64decode (b64encode ([''ABC'', ''<html>''] ! 0)) = Some ([''ABC'', ''<html>''] ! 0)"
    by blast
  have "spec_b64decode ''QUJD'' = Some ''ABC''"
    using r unfolding nth_Cons_0 b .
  with h e show ?thesis by blast
qed

text \<open>
  C10. \<open>determine_response_type\<close> returns \<open>image\<close> or \<open>html\<close> for every payload,
  whatever the imaging library does with it, so \<open>upgrade_photo\<close> stores one value per
  payload: for \<open>n\<close> payloads the keys of the result are \<open>1, ..., n\<close> in this order
  and the value of each is the base64 text or the empty string.
\<close>

theorem upgrade_photo_total:
  "(determine_response_type image_open response = ''image''
      \<or> determine_response_type image_open response = ''html'')
   \<and> map fst (fst (upgrade_photo image_open image_info)) = [1..int (length image_info)]
   \<and> map snd (fst (upgrade_photo image_open image_info)) =
       map (\<lambda>p. PStr (if determine_response_type image_open p = ''image'' then b64encode p else []))
           image_info"
proof -
  have k: "map fst (fst (upgrade_photo image_open image_info)) = [1..int (length image_info)]"
    by (simp add: upgrade_photo_eq comp_def ids_upto)
  have "map snd (fst (upgrade_photo image_open image_info)) =
          map (\<lambda>i. (\<lambda>p. PStr (if image_open p = None then [] else b64encode p)) (image_info ! i))
              [0..<length image_info]"
    by (simp add: upgrade_photo_eq comp_def)
  also have "\<dots> = map (\<lambda>p. PStr (if image_open p = None then [] else b64encode p)) image_info"
    by (rule map_nth_fun)
  also have "\<dots> = map (\<lambda>p. PStr (if determine_response_type image_open p = ''image''
                                then b64encode p else [])) image_info"
    by (simp add: determine_response_type_image)
  finally show ?thesis using k determine_response_type_cases [of image_open response] by blast
qed

subsection \<open>Reconciliation by name\<close>

lemma list_index_find:
  "(case list_index (map snd result) x of
      Some i \<Rightarrow> Some (map fst result ! i) | None \<Rightarrow> None)
   = map_option fst (find (\<lambda>r. snd r = x) result)"
proof (induction result)
  case Nil
  then show ?case by simp
next
  case (Cons r rs)
  show ?case
  proof (cases "snd r = x")
    case True
    then show ?thesis by simp
  next
    case False
    then show ?thesis using Cons.IH by (simp split: option.splits)
  qed
qed

lemma list_index_None: "list_index xs x = None \<longleftrightarrow> x \<notin> set xs"
  by (induction xs) auto

lemma find_None_names: "find (\<lambda>r. snd r = x) result = None \<longleftrightarrow> x \<notin> snd ` set result"
  by (force simp: find_None_iff)

lemma new_dict_distinct:
  assumes "distinct (map fst result)"
  shows "foldl (\<lambda>d r. dict_update (fst r) (snd r) d) [] result = result"
proof -
  have "foldl (\<lambda>d r. dict_update (fst r) (snd r) d) [] result = [] @ map (\<lambda>r. (fst r, snd r)) result"
    by (rule foldl_dict_update_distinct [OF assms]) simp
  then show ?thesis by simp
qed

lemma check_step_first_id:
  "check_step (map snd result) (map fst result) st item =
     (case first_id result (dict_get (snd item) ''name'') of
        Some t \<Rightarrow> (fst st @ [fst item], dict_update (fst item) t (snd st))
      | None \<Rightarrow> st)"
  unfolding check_step_def first_id_def list_index_find [symmetric]
  by (simp split: option.splits)

lemma check_loop:
  assumes "distinct (map fst xs)" "fst ` set ids \<inter> fst ` set xs = {}"
  shows "foldl (check_step (map snd result) (map fst result)) (dl, ids) xs =
     (dl @ map fst (filter (\<lambda>item. first_id result (dict_get (snd item) ''name'') \<noteq> None) xs),
      ids @ map (\<lambda>item. (fst item, the (first_id result (dict_get (snd item) ''name''))))
              (filter (\<lambda>item. first_id result (dict_get (snd item) ''name'') \<noteq> None) xs))"
  using assms
proof (induction xs arbitrary: dl ids)
  case Nil
  then show ?case by simp
next
  case (Cons x xs)
  have d: "distinct (map fst xs)" using Cons.prems(1) by simp
  show ?case
  proof (cases "first_id result (dict_get (snd x) ''name'')")
    case None
    have disj: "fst ` set ids \<inter> fst ` set xs = {}" using Cons.prems(2) by auto
    show ?thesis
      using Cons.IH [OF d disj, of dl] None by (simp add: check_step_first_id)
  next
    case (Some t)
    have fresh: "fst x \<notin> fst ` set ids" using Cons.prems(2) by auto
    have disj: "fst ` set (ids @ [(fst x, t)]) \<inter> fst ` set xs = {}"
      using Cons.prems by auto
    show ?thesis
      using Cons.IH [OF d disj, of "dl @ [fst x]"] Some
      by (simp add: check_step_first_id dict_update_fresh [OF fresh])
  qed
qed

lemma foldl_delete_filter:
  "foldl (\<lambda>d k. AList.delete k d) d ks = filter (\<lambda>p. fst p \<notin> set ks) d"
proof (induction ks arbitrary: d)
  case Nil
  then show ?case by simp
next
  case (Cons k ks)
  have "AList.delete k d = filter (\<lambda>p. fst p \<noteq> k) d"
    unfolding AList.delete_eq by (rule filter_cong) auto
  then have "foldl (\<lambda>d k. AList.delete k d) d (k # ks) =
               filter (\<lambda>p. fst p \<notin> set ks) (filter (\<lambda>p. fst p \<noteq> k) d)"
    by (simp add: Cons.IH)
  also have "\<dots> = filter (\<lambda>p. fst p \<notin> set (k # ks)) d"
    by (induction d) auto
  finally show ?case .
qed

lemma filter_keys_of_filter:
  assumes "distinct (map fst d)"
  shows "filter (\<lambda>p. fst p \<notin> set (map fst (filter m d))) d = filter (\<lambda>p. \<not> m p) d"
proof (rule filter_cong [OF refl])
  fix p assume p: "p \<in> set d"
  have "fst p \<in> set (map fst (filter m d)) \<longleftrightarrow> m p"
  proof
    assume "fst p \<in> set (map fst (filter m d))"
    then obtain q where q: "q \<in> set d" "m q" "fst q = fst p" by auto
    from assms p q(1,3) have "q = p" by (metis eq_key_imp_eq_value prod.collapse)
    with q(2) show "m p" by simp
  next
    assume "m p"
    with p show "fst p \<in> set (map fst (filter m d))" by auto
  qed
  then show "(fst p \<notin> set (map fst (filter m d))) = (\<not> m p)" by simp
qed

lemma map_of_filter_the:
  assumes "distinct (map fst xs)"
  shows "map_of (map (\<lambda>x. (fst x, the (h x))) (filter (\<lambda>x. h x \<noteq> None) xs)) k =
           (case map_of xs k of None \<Rightarrow> None | Some e \<Rightarrow> h (k, e))"
  using assms
proof (induction xs)
  case Nil
  then show ?case by simp
next
  case (Cons x xs)
  have d: "distinct (map fst xs)" using Cons.prems by simp
  show ?case
  proof (cases "fst x = k")
    case False
    then show ?thesis using Cons.IH [OF d] by (cases x) auto
  next
    case True
    have notin: "k \<notin> fst ` set xs" using Cons.prems True by auto
    then have none: "map_of xs k = None" by (simp add: map_of_eq_None_iff)
    have x: "x = (k, snd x)" using True by (cases x) simp
    show ?thesis
    proof (cases "h x")
      case None
      then show ?thesis using Cons.IH [OF d] none True x by (cases x) auto
    next
      case (Some t)
      then show ?thesis using True x by (cases x) auto
    qed
  qed
qed

lemma check_entity_in_odoo_eq:
  assumes de: "distinct (map fst entity_dict)" and dr: "distinct (map fst result)"
  shows "check_entity_in_odoo (Inr result) entity_dict =
     Inr (filter (\<lambda>item. first_id result (dict_get (snd item) ''name'') = None) entity_dict,
          map (\<lambda>item. (fst item, the (first_id result (dict_get (snd item) ''name''))))
              (filter (\<lambda>item. first_id result (dict_get (snd item) ''name'') \<noteq> None) entity_dict))"
proof -
  let ?m = "\<lambda>item. first_id result (dict_get (snd item) ''name'') \<noteq> None"
  have loop: "foldl (check_step (map snd result) (map fst result)) ([], []) entity_dict =
     ([] @ map fst (filter ?m entity_dict),
      [] @ map (\<lambda>item. (fst item, the (first_id result (dict_get (snd item) ''name''))))
              (filter ?m entity_dict))"
    by (rule check_loop [OF de]) simp
  have del: "foldl (\<lambda>d k. AList.delete k d) entity_dict (map fst (filter ?m entity_dict))
               = filter (\<lambda>p. \<not> ?m p) entity_dict"
    by (simp only: foldl_delete_filter filter_keys_of_filter [OF de])
  have "check_entity_in_odoo (Inr result) entity_dict =
          Inr (foldl (\<lambda>d k. AList.delete k d) entity_dict
                 (fst (foldl (check_step (map snd result) (map fst result)) ([], []) entity_dict)),
               snd (foldl (check_step (map snd result) (map fst result)) ([], []) entity_dict))"
    unfolding check_entity_in_odoo_def by (simp only: sum.case Let_def new_dict_distinct [OF dr])
  also have "\<dots> = Inr (filter (\<lambda>p. \<not> ?m p) entity_dict,
          map (\<lambda>item. (fst item, the (first_id result (dict_get (snd item) ''name''))))
              (filter ?m entity_dict))"
    by (simp only: loop fst_conv snd_conv append_Nil del)
  finally show ?thesis by (simp only: not_not)
qed

lemma first_id_None: "first_id result x = None \<longleftrightarrow> x \<notin> snd ` set result"
  by (simp add: first_id_def find_None_names)

text \<open>
  C2. For a dictionary of candidates and the records returned by the store (whose ids
  are pairwise distinct, being the identifiers of the store), \<open>check_entity_in_odoo\<close>
  returns as remaining candidates exactly the candidates whose name is the name of no
  existing record, in their order, and an id map that sends the source id of every
  other candidate to the target id of the first existing record bearing its name. No
  remaining candidate has a key in the id map, so no candidate matched by name is part
  of the batch created afterwards.
\<close>

theorem check_entity_in_odoo_reconciles:
  assumes de: "distinct (map fst entity_dict)" and dr: "distinct (map fst result)"
  shows "\<exists>remaining ids.
           check_entity_in_odoo (Inr result) entity_dict = Inr (remaining, ids)
         \<and> remaining = filter (\<lambda>item. dict_get (snd item) ''name'' \<notin> snd ` set result) entity_dict
         \<and> (\<forall>k. map_of ids k =
                 (case map_of entity_dict k of
                    None \<Rightarrow> None
                  | Some e \<Rightarrow> map_option fst (find (\<lambda>r. snd r = dict_get e ''name'') result)))
         \<and> fst ` set remaining \<inter> fst ` set ids = {}"
proof -
  let ?h = "\<lambda>item. first_id result (dict_get (snd item) ''name'')"
  let ?rem = "filter (\<lambda>item. ?h item = None) entity_dict"
  let ?ids = "map (\<lambda>item. (fst item, the (?h item))) (filter (\<lambda>item. ?h item \<noteq> None) entity_dict)"
  have eq: "check_entity_in_odoo (Inr result) entity_dict = Inr (?rem, ?ids)"
    by (rule check_entity_in_odoo_eq [OF de dr])
  have rem: "?rem = filter (\<lambda>item. dict_get (snd item) ''name'' \<notin> snd ` set result) entity_dict"
    by (simp only: first_id_None)
  have look: "map_of ?ids k =
                 (case map_of entity_dict k of
                    None \<Rightarrow> None
                  | Some e \<Rightarrow> map_option fst (find (\<lambda>r. snd r = dict_get e ''name'') result))" for k
    using map_of_filter_the [OF de, of ?h k]
    by (cases "map_of entity_dict k") (simp_all add: first_id_def)
  have disj: "fst ` set ?rem \<inter> fst ` set ?ids = {}"
  proof (rule ccontr)
    assume "fst ` set ?rem \<inter> fst ` set ?ids \<noteq> {}"
    then obtain k where k1: "k \<in> fst ` set ?rem" and k2: "k \<in> fst ` set ?ids" by blast
    from k1 obtain e where e: "(k, e) \<in> set entity_dict" "?h (k, e) = None" by auto
    from k2 obtain e' where e': "(k, e') \<in> set entity_dict" "?h (k, e') \<noteq> None" by auto
    from de e(1) e'(1) have "e = e'" by (rule eq_key_imp_eq_value)
    with e(2) e'(2) show False by simp
  qed
  from eq rem look disj show ?thesis by blast
qed

theorem check_entity_in_odoo_reconciles_witness:
  "distinct (map fst [(1::int, [(''name'', PStr ''Tatooine'')]), (2, [(''name'', PStr ''Alderaan'')]),
                      (3, [(''name'', PStr ''Hoth'')])])
   \<and> distinct (map fst [(10::int, PStr ''Hoth''), (11, PStr ''Tatooine''), (12, PStr ''Hoth'')])
   \<and> check_entity_in_odoo (Inr [(10, PStr ''Hoth''), (11, PStr ''Tatooine''), (12, PStr ''Hoth'')])
        [(1, [(''name'', PStr ''Tatooine'')]), (2, [(''name'', PStr ''Alderaan'')]),
         (3, [(''name'', PStr ''Hoth'')])]
      = Inr ([(2, [(''name'', PStr ''Alderaan'')])], [(1, 11), (3, 10)])"
proof -
  have de: "distinct (map fst [(1::int, [(''name'', PStr ''Tatooine'')]), (2, [(''name'', PStr ''Alderaan'')]),
                      (3, [(''name'', PStr ''Hoth'')])])" by simp
  have dr: "distinct (map fst [(10::int, PStr ''Hoth''), (11, PStr ''Tatooine''), (12, PStr ''Hoth'')])"
    by simp
  have ev: "check_entity_in_odoo (Inr [(10, PStr ''Hoth''), (11, PStr ''Tatooine''), (12, PStr ''Hoth'')])
        [(1, [(''name'', PStr ''Tatooine'')]), (2, [(''name'', PStr ''Alderaan'')]),
         (3, [(''name'', PStr ''Hoth'')])]
      = Inr ([(2, [(''name'', PStr ''Alderaan'')])], [(1, 11), (3, 10)])"
    by (simp add: check_entity_in_odoo_def check_step_def dict_get_def)
  from check_entity_in_odoo_reconciles [OF de dr]
  obtain remaining ids where
    "check_entity_in_odoo (Inr [(10, PStr ''Hoth''), (11, PStr ''Tatooine''), (12, PStr ''Hoth'')])
        [(1, [(''name'', PStr ''Tatooine'')]), (2, [(''name'', PStr ''Alderaan'')]),
         (3, [(''name'', PStr ''Hoth'')])] = Inr (remaining, ids)"
    "remaining = filter (\<lambda>item. dict_get (snd item) ''name''
          \<notin> snd ` set [(10::int, PStr ''Hoth''), (11, PStr ''Tatooine''), (12, PStr ''Hoth'')])
        [(1, [(''name'', PStr ''Tatooine'')]), (2, [(''name'', PStr ''Alderaan'')]),
         (3, [(''name'', PStr ''Hoth'')])]"
    by blast
  then have "check_entity_in_odoo (Inr [(10, PStr ''Hoth''), (11, PStr ''Tatooine''), (12, PStr ''Hoth'')])
        [(1, [(''name'', PStr ''Tatooine'')]), (2, [(''name'', PStr ''Alderaan'')]),
         (3, [(''name'', PStr ''Hoth'')])] = Inr ([(2, [(''name'', PStr ''Alderaan'')])], ids)"
    by (simp add: dict_get_def)
  with ev de dr show ?thesis by simp
qed

subsection \<open>Batch upload\<close>

lemma foldl_pairs_distinct:
  assumes "distinct (map fst ps)"
  shows "foldl (\<lambda>d kv. dict_update (fst kv) (snd kv) d) [] ps = ps"
proof -
  have "foldl (\<lambda>d kv. dict_update (fst kv) (snd kv) d) [] ps = [] @ map (\<lambda>kv. (fst kv, snd kv)) ps"
    by (rule foldl_dict_update_distinct [OF assms]) simp
  then show ?thesis by simp
qed

lemma map_of_foldl_pairs:
  "distinct (map fst ps) \<Longrightarrow>
   map_of (foldl (\<lambda>d kv. dict_update (fst kv) (snd kv) d) d ps) k =
     (case map_of ps k of Some v \<Rightarrow> Some v | None \<Rightarrow> map_of d k)"
proof (induction ps arbitrary: d)
  case Nil
  then show ?case by simp
next
  case (Cons p ps)
  have d': "distinct (map fst ps)" using Cons.prems by simp
  have step: "map_of (foldl (\<lambda>d kv. dict_update (fst kv) (snd kv) d) d (p # ps)) k =
          (case map_of ps k of Some v \<Rightarrow> Some v
           | None \<Rightarrow> map_of (dict_update (fst p) (snd p) d) k)"
    using Cons.IH [OF d', of "dict_update (fst p) (snd p) d"] by simp
  show ?case
  proof (cases "k = fst p")
    case True
    then have "k \<notin> fst ` set ps" using Cons.prems by auto
    then have "map_of ps k = None" by (simp add: map_of_eq_None_iff)
    then show ?thesis unfolding step using True by (simp add: update_conv')
  next
    case False
    then show ?thesis unfolding step by (simp add: update_conv' split: option.splits)
  qed
qed

lemma map_of_zip_nth_le:
  "distinct xs \<Longrightarrow> i < length xs \<Longrightarrow> i < length ys \<Longrightarrow> map_of (zip xs ys) (xs ! i) = Some (ys ! i)"
proof (induction xs arbitrary: ys i)
  case Nil
  then show ?case by simp
next
  case (Cons x xs)
  then obtain y ys' where ys: "ys = y # ys'" by (cases ys) auto
  show ?case
  proof (cases i)
    case 0
    then show ?thesis by (simp add: ys)
  next
    case (Suc j)
    have "xs ! j \<noteq> x" using Cons.prems Suc by auto
    then show ?thesis using Cons Suc ys by simp
  qed
qed

lemma map_of_zip_notin: "k \<notin> set xs \<Longrightarrow> map_of (zip xs ys) k = None"
  by (auto simp: map_of_eq_None_iff dest: set_zip_leftD)

lemma distinct_fst_zip: "distinct xs \<Longrightarrow> distinct (map fst (zip xs ys))"
  by (simp add: map_fst_zip_take distinct_take)

lemma for_loop_succeeds:
  "(\<And>s x. x \<in> set xs \<Longrightarrow> \<exists>s'. body s x = Inr s') \<Longrightarrow> \<exists>s'. for_loop body s xs = Inr s'"
proof (induction xs arbitrary: s)
  case Nil
  then show ?case by simp
next
  case (Cons x xs)
  from Cons.prems [of x s] obtain s1 where s1: "body s x = Inr s1" by auto
  have "\<exists>s'. for_loop body s1 xs = Inr s'"
    by (rule Cons.IH) (simp add: Cons.prems)
  then show ?case by (simp add: s1)
qed

text \<open>
  C6. When the store returns one id per submitted record, \<open>upload_entity_info_into_oddo\<close>
  passes the field mappings of the candidates to the store as one batch in their order,
  maps the \<open>i\<close>-th source id to the \<open>i\<close>-th returned id, leaves every other key of
  the id map as it was, and so keeps all the pairs recorded during reconciliation, whose
  keys are not keys of the remaining candidates. Every candidate carries a \<open>name\<close>
  field, which the logging loop reads.
\<close>

theorem upload_entity_info_into_oddo_merges:
  assumes de: "distinct (map fst entity_dict)"
    and names: "\<forall>item\<in>set entity_dict. map_of (snd item) ''name'' \<noteq> None"
    and cr: "create (map snd entity_dict) = Inr entity_odoo_id"
    and len: "length entity_dict \<le> length entity_odoo_id"
  shows "\<exists>out. upload_entity_info_into_oddo create entity_dict ids_entity_dict type = Inr out
         \<and> submitted out = [map snd entity_dict]
         \<and> (\<forall>i<length entity_dict.
               map_of (ids_out out) (fst (entity_dict ! i)) = Some (entity_odoo_id ! i))
         \<and> (\<forall>k. k \<notin> fst ` set entity_dict \<longrightarrow> map_of (ids_out out) k = map_of ids_entity_dict k)
         \<and> (fst ` set entity_dict \<inter> fst ` set ids_entity_dict = {} \<longrightarrow>
              (\<forall>k v. map_of ids_entity_dict k = Some v \<longrightarrow> map_of (ids_out out) k = Some v))"
proof -
  let ?keys = "map fst entity_dict"
  let ?z = "zip ?keys entity_odoo_id"
  let ?ids' = "foldl (\<lambda>d kv. dict_update (fst kv) (snd kv) d) ids_entity_dict ?z"
  have dz: "distinct (map fst ?z)" using de by (rule distinct_fst_zip)
  have zipped: "foldl (\<lambda>d kv. dict_update (fst kv) (snd kv) d) [] ?z = ?z"
    by (rule foldl_pairs_distinct [OF dz])
  have look: "map_of ?ids' k = (case map_of ?z k of Some v \<Rightarrow> Some v | None \<Rightarrow> map_of ids_entity_dict k)" for k
    by (rule map_of_foldl_pairs [OF dz])
  have new: "map_of ?ids' (fst (entity_dict ! i)) = Some (entity_odoo_id ! i)" if i: "i < length entity_dict" for i
  proof -
    have "map_of ?z (?keys ! i) = Some (entity_odoo_id ! i)"
      using de i len by (intro map_of_zip_nth_le) simp_all
    then show ?thesis using i by (simp add: look)
  qed
  have old: "map_of ?ids' k = map_of ids_entity_dict k" if "k \<notin> fst ` set entity_dict" for k
  proof -
    have "map_of ?z k = None" using that by (intro map_of_zip_notin) simp
    then show ?thesis by (simp add: look)
  qed
  have "\<exists>l. for_loop (upload_log_step type ?ids') [] entity_dict = Inr l"
  proof (rule for_loop_succeeds)
    fix s :: "string list" and x :: "int \<times> entity"
    assume x: "x \<in> set entity_dict"
    then obtain i where i: "i < length entity_dict" "entity_dict ! i = x"
      by (auto simp: in_set_conv_nth)
    from names x obtain n where n: "map_of (snd x) ''name'' = Some n" by auto
    from new [OF i(1)] i(2) have "map_of ?ids' (fst x) = Some (entity_odoo_id ! i)" by simp
    then show "\<exists>s'. upload_log_step type ?ids' s x = Inr s'"
      by (simp add: upload_log_step_def dict_item_def n)
  qed
  then obtain l where l: "for_loop (upload_log_step type ?ids') [] entity_dict = Inr l" ..
  let ?out = "\<lparr>ids_out = ?ids', submitted = [map snd entity_dict], logged = l\<rparr>"
  have res: "upload_entity_info_into_oddo create entity_dict ids_entity_dict type = Inr ?out"
    unfolding upload_entity_info_into_oddo_def
    by (simp only: cr sum.case Let_def zipped l)
  have keep: "fst ` set entity_dict \<inter> fst ` set ids_entity_dict = {} \<longrightarrow>
              (\<forall>k v. map_of ids_entity_dict k = Some v \<longrightarrow> map_of ?ids' k = Some v)"
  proof (intro impI allI)
    fix k v
    assume disj: "fst ` set entity_dict \<inter> fst ` set ids_entity_dict = {}"
      and kv: "map_of ids_entity_dict k = Some v"
    from kv have "(k, v) \<in> set ids_entity_dict" by (rule map_of_SomeD)
    then have "k \<in> fst ` set ids_entity_dict" by force
    with disj have "k \<notin> fst ` set entity_dict" by blast
    from old [OF this] kv show "map_of ?ids' k = Some v" by simp
  qed
  have a: "submitted ?out = [map snd entity_dict]" by simp
  have b: "\<forall>i<length entity_dict. map_of (ids_out ?out) (fst (entity_dict ! i)) = Some (entity_odoo_id ! i)"
    using new by simp
  have c: "\<forall>k. k \<notin> fst ` set entity_dict \<longrightarrow> map_of (ids_out ?out) k = map_of ids_entity_dict k"
    using old by simp
  have d: "fst ` set entity_dict \<inter> fst ` set ids_entity_dict = {} \<longrightarrow>
              (\<forall>k v. map_of ids_entity_dict k = Some v \<longrightarrow> map_of (ids_out ?out) k = Some v)"
    using keep by simp
  from res a b c d show ?thesis by blast
qed

theorem upload_entity_info_into_oddo_merges_witness:
  "distinct (map fst [(2::int, [(''name'', PStr ''Alderaan'')]), (5, [(''name'', PStr ''Yavin'')])])
   \<and> list_all (\<lambda>item. map_of (snd item) ''name'' \<noteq> None)
        [(2::int, [(''name'', PStr ''Alderaan'')]), (5, [(''name'', PStr ''Yavin'')])]
   \<and> (\<lambda>batch. Inr [20, 21] :: py_error + int list)
        (map snd [(2::int, [(''name'', PStr ''Alderaan'')]), (5, [(''name'', PStr ''Yavin'')])])
      = Inr [20, 21]
   \<and> length [(2::int, [(''name'', PStr ''Alderaan'')]), (5, [(''name'', PStr ''Yavin'')])]
        \<le> length [20::int, 21]
   \<and> upload_entity_info_into_oddo (\<lambda>batch. Inr [20, 21])
        [(2, [(''name'', PStr ''Alderaan'')]), (5, [(''name'', PStr ''Yavin'')])]
        [(1, 11), (3, 10)] ''planet''
      = Inr \<lparr>ids_out = [(1, 11), (3, 10), (2, 20), (5, 21)],
             submitted = [[[(''name'', PStr ''Alderaan'')], [(''name'', PStr ''Yavin'')]]],
             logged = [''The entity type: planet, name: Alderaan, Odoo_id: 20, mother_id: 2 is created'',
                       ''The entity type: planet, name: Yavin, Odoo_id: 21, mother_id: 5 is created'']\<rparr>"
proof -
  let ?ed = "[(2::int, [(''name'', PStr ''Alderaan'')]), (5, [(''name'', PStr ''Yavin'')])]"
  let ?create = "\<lambda>batch :: entity list. Inr [20, 21] :: py_error + int list"
  have h1: "distinct (map fst ?ed)" by simp
  have h2: "\<forall>item\<in>set ?ed. map_of (snd item) ''name'' \<noteq> None" by simp
  have h3: "?create (map snd ?ed) = Inr [20, 21]" by simp
  have h4: "length ?ed \<le> length [20::int, 21]" by simp
  have s: "str_int 2 = ''2''" "str_int 5 = ''5''" "str_int 20 = ''20''" "str_int 21 = ''21''"
    by (simp_all add: str_int_def str_nat.simps digit_char_def)
  have ev: "upload_entity_info_into_oddo ?create ?ed [(1, 11), (3, 10)] ''planet''
      = Inr \<lparr>ids_out = [(1, 11), (3, 10), (2, 20), (5, 21)],
             submitted = [[[(''name'', PStr ''Alderaan'')], [(''name'', PStr ''Yavin'')]]],
             logged = [''The entity type: planet, name: Alderaan, Odoo_id: 20, mother_id: 2 is created'',
                       ''The entity type: planet, name: Yavin, Odoo_id: 21, mother_id: 5 is created'']\<rparr>"
    by (simp add: upload_entity_info_into_oddo_def upload_log_step_def dict_item_def pyval_str_def s)
  from upload_entity_info_into_oddo_merges [OF h1 h2 h3 h4, of "[(1, 11), (3, 10)]" "''planet''"]
  obtain out where
    "upload_entity_info_into_oddo ?create ?ed [(1, 11), (3, 10)] ''planet'' = Inr out"
    "submitted out = [map snd ?ed]"
    by blast
  with ev have "submitted out = [[[(''name'', PStr ''Alderaan'')], [(''name'', PStr ''Yavin'')]]]"
    by simp
  with ev h1 h2 h3 h4 show ?thesis by simp
qed

subsection \<open>Normalizing pages\<close>

lemma for_loop_append:
  "for_loop body s (xs @ ys) =
     (case for_loop body s xs of Inl e \<Rightarrow> Inl e | Inr s' \<Rightarrow> for_loop body s' ys)"
  by (induction xs arbitrary: s) (auto split: sum.splits)

lemma for_loop_concat:
  "for_loop (\<lambda>s pg. for_loop body s (f pg)) s pgs = for_loop body s (concat (map f pgs))"
proof (induction pgs arbitrary: s)
  case Nil
  then show ?case by simp
next
  case (Cons pg pgs)
  show ?case by (simp add: for_loop_append Cons.IH split: sum.splits)
qed

lemma for_loop_filter:
  assumes skip: "\<And>s x. \<not> keep x \<Longrightarrow> body s x = Inr s"
  shows "for_loop body s xs = for_loop body s (filter keep xs)"
proof (induction xs arbitrary: s)
  case Nil
  then show ?case by simp
next
  case (Cons x xs)
  show ?case
  proof (cases "keep x")
    case True
    then show ?thesis by (simp add: Cons.IH split: sum.splits)
  next
    case False
    then show ?thesis by (simp add: skip Cons.IH)
  qed
qed

lemma map_of_foldl_update_rev:
  "map_of (foldl (\<lambda>d kv. dict_update (fst kv) (snd kv) d) d ps) k =
     (case map_of (rev ps) k of Some v \<Rightarrow> Some v | None \<Rightarrow> map_of d k)"
proof (induction ps rule: rev_induct)
  case Nil
  then show ?case by simp
next
  case (snoc p ps)
  show ?case by (simp add: update_conv' snoc.IH)
qed

lemma keys_foldl_update:
  "fst ` set (foldl (\<lambda>d kv. dict_update (fst kv) (snd kv) d) d ps) = fst ` set d \<union> fst ` set ps"
proof (induction ps rule: rev_induct)
  case Nil
  then show ?case by simp
next
  case (snoc p ps)
  show ?case by (simp add: dom_update snoc.IH)
qed

lemma map_of_rev_nth_last:
  "i < length xs \<Longrightarrow> (\<forall>j. i < j \<and> j < length xs \<longrightarrow> fst (xs ! j) \<noteq> fst (xs ! i)) \<Longrightarrow>
   map_of (rev xs) (fst (xs ! i)) = Some (snd (xs ! i))"
proof (induction xs rule: rev_induct)
  case Nil
  then show ?case by simp
next
  case (snoc y ys)
  show ?case
  proof (cases "i = length ys")
    case True
    then show ?thesis by simp
  next
    case False
    then have i: "i < length ys" using snoc.prems(1) by simp
    have "i < length ys \<and> length ys < length (ys @ [y])" using i by simp
    then have "fst ((ys @ [y]) ! length ys) \<noteq> fst ((ys @ [y]) ! i)"
      using snoc.prems(2) by blast
    then have ne: "fst y \<noteq> fst (ys ! i)" using i by (simp add: nth_append)
    have later: "\<forall>j. i < j \<and> j < length ys \<longrightarrow> fst (ys ! j) \<noteq> fst (ys ! i)"
    proof (intro allI impI)
      fix j assume j: "i < j \<and> j < length ys"
      then have "i < j \<and> j < length (ys @ [y])" by simp
      then have "fst ((ys @ [y]) ! j) \<noteq> fst ((ys @ [y]) ! i)" using snoc.prems(2) by blast
      then show "fst (ys ! j) \<noteq> fst (ys ! i)" using i j by (simp add: nth_append)
    qed
    have "map_of (rev ys) (fst (ys ! i)) = Some (snd (ys ! i))"
      by (rule snoc.IH [OF i later])
    then show ?thesis using ne i by (simp add: nth_append)
  qed
qed

lemma blank_sentinel_spec: "blank_sentinel v = spec_blank v"
  by (simp add: blank_sentinel_def spec_blank_def)

lemma planet_step_skip:
  "\<not> record_name r \<noteq> PStr ''unknown'' \<Longrightarrow> planet_step d r = Inr d"
  by (simp add: planet_step_def record_name_def)

lemma planet_step_kept:
  "record_name r \<noteq> PStr ''unknown'' \<Longrightarrow> source_id r = Inr k \<Longrightarrow>
   planet_step d r = Inr (dict_update (fst (spec_planet_entry r)) (snd (spec_planet_entry r)) d)"
  by (simp add: planet_step_def record_name_def source_id_def spec_planet_entry_def
      blank_sentinel_spec Let_def)

lemma planets_loop_kept:
  "\<forall>r\<in>set rs. record_name r \<noteq> PStr ''unknown'' \<and> (\<exists>k. source_id r = Inr k) \<Longrightarrow>
   for_loop planet_step d rs =
     Inr (foldl (\<lambda>d kv. dict_update (fst kv) (snd kv) d) d (map spec_planet_entry rs))"
proof (induction rs arbitrary: d)
  case Nil
  then show ?case by simp
next
  case (Cons r rs)
  from Cons.prems obtain k where k: "record_name r \<noteq> PStr ''unknown''" "source_id r = Inr k"
    by auto
  have rest: "\<forall>r\<in>set rs. record_name r \<noteq> PStr ''unknown'' \<and> (\<exists>k. source_id r = Inr k)"
    using Cons.prems by simp
  show ?case
    by (simp add: planet_step_kept [OF k] Cons.IH [OF rest])
qed

lemma generate_planet_info_kept:
  "generate_planet_info json_list = for_loop planet_step [] (kept_records json_list)"
proof -
  have "generate_planet_info json_list = for_loop planet_step [] (concat (map page_results json_list))"
    unfolding generate_planet_info_def by (rule for_loop_concat)
  also have "\<dots> = for_loop planet_step []
       (filter (\<lambda>r. record_name r \<noteq> PStr ''unknown'') (concat (map page_results json_list)))"
    by (rule for_loop_filter) (rule planet_step_skip)
  finally show ?thesis by (simp add: kept_records_def)
qed

lemma distinct_foldl_update:
  "distinct (map fst d) \<Longrightarrow>
   distinct (map fst (foldl (\<lambda>d kv. dict_update (fst kv) (snd kv) d) d ps))"
  by (induction ps arbitrary: d) (simp_all add: distinct_update)

lemma map_of_foldl_update_empty:
  "map_of (foldl (\<lambda>d kv. dict_update (fst kv) (snd kv) d) [] ps) k = map_of (rev ps) k"
  by (simp add: map_of_foldl_update_rev split: option.splits)

lemma kept_records_name: "r \<in> set (kept_records json_list) \<Longrightarrow> record_name r \<noteq> PStr ''unknown''"
  by (simp add: kept_records_def)

text \<open>
  C8. When the URL of every kept record carries a source id, \<open>generate_planet_info\<close>
  returns a dictionary in which no entry has the name \<open>unknown\<close> and every entry is
  the canonical planet of a kept record: its name, and each of \<open>diameter\<close>,
  \<open>rotation_period\<close>, \<open>orbital_period\<close> and \<open>population\<close> blanked when the raw
  value is \<open>unknown\<close> or \<open>0\<close> and kept verbatim otherwise. The entry of a source
  id is that of the last kept record with this id. Records named \<open>unknown\<close> are not
  among the kept records and leave no trace.
\<close>

theorem generate_planet_info_normalizes:
  assumes wf: "\<forall>r\<in>set (kept_records json_list). \<exists>k. source_id r = Inr k"
  shows "\<exists>planet_dict.
           generate_planet_info json_list = Inr planet_dict
         \<and> distinct (map fst planet_dict)
         \<and> (\<forall>k e. map_of planet_dict k = Some e \<longrightarrow>
               dict_get e ''name'' \<noteq> PStr ''unknown''
               \<and> (\<exists>r\<in>set (kept_records json_list). spec_planet_entry r = (k, e)))
         \<and> (\<forall>i<length (kept_records json_list).
               (\<forall>j. i < j \<and> j < length (kept_records json_list) \<longrightarrow>
                    source_id (kept_records json_list ! j) \<noteq> source_id (kept_records json_list ! i))
               \<longrightarrow> map_of planet_dict (fst (spec_planet_entry (kept_records json_list ! i)))
                     = Some (snd (spec_planet_entry (kept_records json_list ! i))))"
proof -
  let ?kept = "kept_records json_list"
  let ?entries = "map spec_planet_entry ?kept"
  let ?d = "foldl (\<lambda>d kv. dict_update (fst kv) (snd kv) d) [] ?entries"
  have all: "\<forall>r\<in>set ?kept. record_name r \<noteq> PStr ''unknown'' \<and> (\<exists>k. source_id r = Inr k)"
    using wf kept_records_name by blast
  have res: "generate_planet_info json_list = Inr ?d"
    unfolding generate_planet_info_kept by (rule planets_loop_kept [OF all])
  have dist: "distinct (map fst ?d)" by (rule distinct_foldl_update) simp
  have look: "map_of ?d k = map_of (rev ?entries) k" for k
    by (rule map_of_foldl_update_empty)
  have from_record: "dict_get e ''name'' \<noteq> PStr ''unknown''
               \<and> (\<exists>r\<in>set ?kept. spec_planet_entry r = (k, e))"
    if "map_of ?d k = Some e" for k e
  proof -
    from that have "(k, e) \<in> set (rev ?entries)" unfolding look by (rule map_of_SomeD)
    then obtain r where r: "r \<in> set ?kept" "spec_planet_entry r = (k, e)" by auto
    from r(2) have "dict_get e ''name'' = record_name r"
      by (auto simp: spec_planet_entry_def dict_get_def)
    with kept_records_name [OF r(1)] r show ?thesis by auto
  qed
  have last_wins: "map_of ?d (fst (spec_planet_entry (?kept ! i))) = Some (snd (spec_planet_entry (?kept ! i)))"
    if i: "i < length ?kept"
      and later: "\<forall>j. i < j \<and> j < length ?kept \<longrightarrow> source_id (?kept ! j) \<noteq> source_id (?kept ! i)"
    for i
  proof -
    have i': "i < length ?entries" using i by simp
    have "\<forall>j. i < j \<and> j < length ?entries \<longrightarrow> fst (?entries ! j) \<noteq> fst (?entries ! i)"
    proof (intro allI impI)
      fix j assume j: "i < j \<and> j < length ?entries"
      then have jl: "j < length ?kept" by simp
      from wf jl obtain kj where kj: "source_id (?kept ! j) = Inr kj" by (meson nth_mem)
      from wf i obtain ki where ki: "source_id (?kept ! i) = Inr ki" by (meson nth_mem)
      from later j have "source_id (?kept ! j) \<noteq> source_id (?kept ! i)" by simp
      then show "fst (?entries ! j) \<noteq> fst (?entries ! i)"
        using i jl kj ki by (simp add: spec_planet_entry_def)
    qed
    from map_of_rev_nth_last [OF i' this] show ?thesis using i by (simp add: look)
  qed
  from res dist from_record last_wins show ?thesis by blast
qed

theorem generate_planet_info_normalizes_witness:
  "list_all (\<lambda>r. \<exists>k. source_id r = Inr k) (kept_records
        [\<lparr>count = PInt 3, results = Some
            [[(''name'', PStr ''Tatooine''), (''rotation_period'', PStr ''23''),
              (''orbital_period'', PStr ''304''), (''diameter'', PStr ''6760''),
              (''population'', PStr ''200000''), (''url'', PStr ''https://swapi.dev/api/planets/1/'')],
             [(''name'', PStr ''unknown''), (''rotation_period'', PStr ''0''),
              (''orbital_period'', PStr ''0''), (''diameter'', PStr ''0''),
              (''population'', PStr ''unknown''), (''url'', PStr ''https://swapi.dev/api/planets/28/'')]]\<rparr>,
         \<lparr>count = PInt 3, results = Some
            [[(''name'', PStr ''Hoth''), (''rotation_period'', PStr ''23''),
              (''orbital_period'', PStr ''549''), (''diameter'', PStr ''unknown''),
              (''population'', PStr ''0''), (''url'', PStr ''https://swapi.dev/api/planets/4/'')]]\<rparr>])
   \<and> generate_planet_info
        [\<lparr>count = PInt 3, results = Some
            [[(''name'', PStr ''Tatooine''), (''rotation_period'', PStr ''23''),
              (''orbital_period'', PStr ''304''), (''diameter'', PStr ''6760''),
              (''population'', PStr ''200000''), (''url'', PStr ''https://swapi.dev/api/planets/1/'')],
             [(''name'', PStr ''unknown''), (''rotation_period'', PStr ''0''),
              (''orbital_period'', PStr ''0''), (''diameter'', PStr ''0''),
              (''population'', PStr ''unknown''), (''url'', PStr ''https://swapi.dev/api/planets/28/'')]]\<rparr>,
         \<lparr>count = PInt 3, results = Some
            [[(''name'', PStr ''Hoth''), (''rotation_period'', PStr ''23''),
              (''orbital_period'', PStr ''549''), (''diameter'', PStr ''unknown''),
              (''population'', PStr ''0''), (''url'', PStr ''https://swapi.dev/api/planets/4/'')]]\<rparr>]
      = Inr [(1, [(''name'', PStr ''Tatooine''), (''diameter'', PStr ''6760''),
                  (''rotation_period'', PStr ''23''), (''orbital_period'', PStr ''304''),
                  (''population'', PStr ''200000'')]),
             (4, [(''name'', PStr ''Hoth''), (''diameter'', PStr []),
                  (''rotation_period'', PStr ''23''), (''orbital_period'', PStr ''549''),
                  (''population'', PStr [])])]"
  (is "list_all ?wf (kept_records ?pages) \<and> generate_planet_info ?pages = Inr ?result")
proof -
  have u1: "entity_id_of_url (PStr ''https://swapi.dev/api/planets/1/'') = Inr 1"
    by (simp add: entity_id_of_url_def py_int_def strip_def is_space_def is_digit_def digit_val_def
        int_max_str_digits_def)
  have u4: "entity_id_of_url (PStr ''https://swapi.dev/api/planets/4/'') = Inr 4"
    by (simp add: entity_id_of_url_def py_int_def strip_def is_space_def is_digit_def digit_val_def
        int_max_str_digits_def)
  have wf: "\<forall>r\<in>set (kept_records ?pages). \<exists>k. source_id r = Inr k"
    by (simp add: kept_records_def page_results_def record_name_def dict_get_default_def
        source_id_def dict_get_def u1 u4)
  have ev: "generate_planet_info ?pages = Inr ?result"
    by (simp add: generate_planet_info_def page_results_def planet_step_def dict_get_default_def
        dict_get_def blank_sentinel_def Let_def u1 u4)
  from generate_planet_info_normalizes [OF wf]
  obtain planet_dict where "generate_planet_info ?pages = Inr planet_dict"
    "distinct (map fst planet_dict)" by blast
  with ev have "distinct (map fst ?result)" by simp
  with wf ev show ?thesis by (simp only: list_all_iff simp_thms)
qed

subsection \<open>Normalizing characters\<close>








lemma is_digit_not_space: "is_digit c \<Longrightarrow> \<not> is_space c"
  by (auto simp: is_digit_def is_space_def)

lemma is_digit_not_sign: "is_digit c \<Longrightarrow> c \<noteq> CHR ''-'' \<and> c \<noteq> CHR ''+'' \<and> c \<noteq> CHR ''/''"
  by (auto simp: is_digit_def)

lemma parse_digits_all:
  "\<forall>c\<in>set ds. is_digit c \<Longrightarrow>
   parse_digits acc ds = Some (foldl (\<lambda>a c. 10 * a + digit_val c) acc ds)"
  by (induction ds arbitrary: acc) simp_all

lemma strip_digits:
  assumes "ds \<noteq> []" "\<forall>c\<in>set ds. is_digit c"
  shows "strip ds = ds"
proof -
  have h: "\<not> is_space (hd ds)" using assms by (simp add: is_digit_not_space)
  have l: "\<not> is_space (hd (rev ds))" using assms by (simp add: is_digit_not_space hd_rev)
  have 1: "dropWhile is_space ds = ds" using assms(1) h by (cases ds) simp_all
  have 2: "dropWhile is_space (rev ds) = rev ds" using assms(1) l by (cases "rev ds") simp_all
  show ?thesis by (simp add: strip_def 1 2)
qed


lemma py_int_too_long:
  assumes "\<forall>c\<in>set ds. is_digit c" "4300 < length ds"
  shows "py_int ds = Inl ValueError"
proof -
  have ne: "ds \<noteq> []" using assms(2) by auto
  have hd: "is_digit (hd ds)" using assms(1) ne by simp
  then have sign: "hd ds \<noteq> CHR ''-''" "hd ds \<noteq> CHR ''+''" using is_digit_not_sign by blast+
  have all: "filter is_digit ds = ds" using assms(1) by (simp add: filter_id_conv)
  have lim: "int_max_str_digits < length ds"
    using assms(2) by (simp add: int_max_str_digits_def)
  show ?thesis
    by (simp add: py_int_def strip_digits [OF ne assms(1)] Let_def ne sign hd
        parse_digits_all [OF assms(1)] all lim)
qed

lemma rfind_absent: "c \<notin> set xs \<Longrightarrow> rfind xs c = - 1"
  by (induction xs) (auto simp: Let_def)

lemma rfind_last: "c \<notin> set ds \<Longrightarrow> rfind (p @ c # ds) c = int (length p)"
  by (induction p) (simp_all add: Let_def rfind_absent)


text \<open>
  Characters that \<^verbatim>\<open>int\<close> does not strip make the conversion fail, as does a
  numeral beyond the limit.
\<close>

lemma entity_id_of_url_control_char:
  "entity_id_of_url (PStr (''https://x/'' @ [CHR 0x1C] @ ''5/'')) = Inl ValueError"
  by (simp add: entity_id_of_url_def py_int_def strip_def is_space_def is_digit_def)

lemma entity_id_of_url_too_long:
  assumes "\<forall>c\<in>set ds. is_digit c" "4300 < length ds"
  shows "entity_id_of_url (PStr (p @ ''/'' @ ds @ ''/'')) = Inl ValueError"
proof -
  have no_slash: "CHR ''/'' \<notin> set ds" using assms(1) is_digit_not_sign by blast
  have b: "butlast (p @ ''/'' @ ds @ ''/'') = p @ CHR ''/'' # ds"
    by (simp add: butlast_append)
  have r: "rfind (p @ CHR ''/'' # ds) CHR ''/'' = int (length p)"
    by (rule rfind_last [OF no_slash])
  have n: "nat (int (length p) + 1) = Suc (length p)" by simp
  have d: "drop (Suc (length p)) (p @ CHR ''/'' # ds) = ds" by simp
  show ?thesis
    unfolding entity_id_of_url_def pyval.case b r n d
    by (rule py_int_too_long [OF assms])
qed




end
